theory Spec2Isabelle
  imports Complex_Main
begin

section \<open>Data model\<close>

text \<open>
  Modelled from the spec: the type declarations \<^verbatim>\<open>Status\<close>, \<^verbatim>\<open>Card\<close>, \<^verbatim>\<open>Board\<close>,
  \<^verbatim>\<open>Player\<close> and \<^verbatim>\<open>GameState\<close> (imported from \<^verbatim>\<open>types/types.ts\<close>). The records carry
  the fields of the spec's data model that the functions below read or write, under the
  names the functions use. A property that may be absent is \<open>option\<close>-valued. Player
  ids, owner ids and round numbers are non-negative integers (\<open>nat\<close>); they serve as
  property keys of plain objects. Scores and phase indices are integers.
\<close>

record status =
  type_s :: string
  addedByPlayerId :: nat

record card =
  id_c :: string
  baseId :: "string option"
  ownerId :: "nat option"
  isFaceDown :: bool
  power_c :: int
  bonusPower :: "int option"
  statuses :: "status list option"

type_synonym cell = "card option"
type_synonym board = "cell list list"

record player =
  id_p :: nat
  teamId :: "nat option"
  hand :: "card list"
  deck :: "card list"
  score :: int
  isDummy :: bool
  isDisconnected :: bool
  isReady :: bool
  autoDrawEnabled :: "bool option"

text \<open>
  \<^verbatim>\<open>activePlayerId\<close> and \<^verbatim>\<open>startingPlayerId\<close> hold a player id, \<^verbatim>\<open>null\<close> or
  \<^verbatim>\<open>undefined\<close>; the handlers compare them with \<^verbatim>\<open>===\<close>, which tells the three apart.
\<close>

datatype playerRef = PNull | PUndefined | PId nat

record gameState =
  board :: board
  players :: "player list"
  activeGridSize :: int
  currentPhase :: int
  activePlayerId :: playerRef
  startingPlayerId :: playerRef
  currentRound :: nat
  turnNumber :: nat
  roundWinners :: "(nat \<times> nat list) list"
  gameWinner :: "nat option"
  isGameStarted :: bool
  isReadyCheckActive :: bool
  isRoundEndModalOpen :: bool
  roundEndTriggered :: bool
  autoAbilitiesEnabled :: bool
  autoDrawnPlayers :: "nat list"

subsection \<open>Plain objects with integer keys\<close>

text \<open>
  A plain object with numbers as keys is the association list of its properties in the
  order in which \<^verbatim>\<open>for ... in\<close>, \<^verbatim>\<open>Object.keys\<close>, \<^verbatim>\<open>Object.values\<close> and
  \<^verbatim>\<open>Object.entries\<close> visit them: first the keys that are array indices (the integers
  below \<open>2^32 - 1\<close>) in ascending numeric order, then all other keys in the order in which
  they were created. \<open>objSet\<close> is the assignment \<^verbatim>\<open>obj[k] = v\<close>: an existing property
  keeps its place, a new property is entered at its place in this order (\<open>objInsert\<close>).
\<close>

definition isArrayIndex :: "nat \<Rightarrow> bool" where
  "isArrayIndex k = (int k < 4294967295)"

fun objInsert :: "nat \<Rightarrow> 'v \<Rightarrow> (nat \<times> 'v) list \<Rightarrow> (nat \<times> 'v) list" where
  "objInsert k v [] = [(k, v)]"
| "objInsert k v ((k', v') # rest) =
     (if isArrayIndex k \<and> (\<not> isArrayIndex k' \<or> k < k') then (k, v) # (k', v') # rest
      else (k', v') # objInsert k v rest)"

definition objSet :: "nat \<Rightarrow> 'v \<Rightarrow> (nat \<times> 'v) list \<Rightarrow> (nat \<times> 'v) list" where
  "objSet k v obj =
     (if k \<in> set (map fst obj)
      then map (\<lambda>(k', v'). if k' = k then (k', v) else (k', v')) obj
      else objInsert k v obj)"

text \<open>
  A key is the decimal string of the number; \<^verbatim>\<open>parseInt(key, 10)\<close> gives the number back
  for every safe integer (up to \<open>2^53 - 1\<close>), the ids a session can hold.
\<close>

definition maxSafeInteger :: int where
  "maxSafeInteger = 9007199254740991"

definition parseIntKey :: "nat \<Rightarrow> nat" where
  "parseIntKey k = k"

definition objGet :: "nat \<Rightarrow> (nat \<times> 'v) list \<Rightarrow> 'v option" where
  "objGet k obj = map_of obj k"

definition objKeys :: "(nat \<times> 'v) list \<Rightarrow> nat list" where
  "objKeys obj = map fst obj"

definition objValues :: "(nat \<times> 'v) list \<Rightarrow> 'v list" where
  "objValues obj = map snd obj"

section \<open>Turn phase state machine (phase management handlers)\<close>

definition getRoundVictoryThreshold :: "nat \<Rightarrow> int" where
  "getRoundVictoryThreshold roundNumber = 10 + (int roundNumber * 10)"

text \<open>\<^verbatim>\<open>Math.max(...xs)\<close>: the result for no arguments is \<open>-Infinity\<close>, here \<open>None\<close>.\<close>

fun mathMax :: "int list \<Rightarrow> int option" where
  "mathMax [] = None"
| "mathMax (x # xs) = (case mathMax xs of None \<Rightarrow> Some x | Some m \<Rightarrow> Some (max x m))"

text \<open>\<^verbatim>\<open>maxScore >= threshold\<close>, where \<open>-Infinity\<close> is below every threshold.\<close>

definition geThreshold :: "int option \<Rightarrow> int \<Rightarrow> bool" where
  "geThreshold m t = (case m of None \<Rightarrow> False | Some v \<Rightarrow> t \<le> v)"

text \<open>\<^verbatim>\<open>p.score || 0\<close> on an integer score.\<close>

definition scoreOr0 :: "player \<Rightarrow> int" where
  "scoreOr0 p = (if score p = 0 then 0 else score p)"

definition checkRoundEnd :: "gameState \<Rightarrow> bool \<Rightarrow> bool" where
  "checkRoundEnd gameState isDeselectCheck =
     (let threshold = getRoundVictoryThreshold (currentRound gameState);
          maxScore = mathMax (map scoreOr0 (players gameState))
      in if \<not> isGameStarted gameState then False
         else if isRoundEndModalOpen gameState then False
         else if currentPhase gameState \<noteq> 0 then False
         else if \<not> isDeselectCheck \<and> activePlayerId gameState \<noteq> startingPlayerId gameState
           then False
         else if geThreshold maxScore threshold then True
         else False)"

text \<open>\<^verbatim>\<open>totalWins[winnerId] = (totalWins[winnerId] || 0) + 1\<close>\<close>

definition countWin :: "nat \<Rightarrow> (nat \<times> nat) list \<Rightarrow> (nat \<times> nat) list" where
  "countWin winnerId totalWins =
     objSet winnerId
       ((case objGet winnerId totalWins of None \<Rightarrow> 0 | Some n \<Rightarrow> (if n = 0 then 0 else n)) + 1)
       totalWins"

definition totalWinsOf :: "(nat \<times> nat list) list \<Rightarrow> (nat \<times> nat) list" where
  "totalWinsOf rw = fold (\<lambda>winners tw. fold countWin winners tw) (objValues rw) []"

text \<open>
  \<open>endRound\<close> mutates the game state; the model returns the new state. An absent
  \<^verbatim>\<open>roundWinners\<close> is replaced by \<^verbatim>\<open>{}\<close> before its only use, so the field is the object
  itself. The loop over \<^verbatim>\<open>Object.entries(totalWins)\<close> stops at the first entry with two
  wins (\<^verbatim>\<open>break\<close>): \<open>find\<close>.
\<close>

definition endRound :: "gameState \<Rightarrow> gameState" where
  "endRound gameState =
     (let maxScore = mathMax (map scoreOr0 (players gameState));
          winners = map id_p (filter (\<lambda>p. Some (score p) = maxScore) (players gameState));
          gs1 = gameState\<lparr>roundWinners :=
                  objSet (currentRound gameState) winners (roundWinners gameState)\<rparr>;
          totalWins = totalWinsOf (roundWinners gs1);
          gs2 = (case find (\<lambda>(playerId, winCount). winCount \<ge> 2) totalWins of
                   None \<Rightarrow> gs1
                 | Some (playerId, winCount) \<Rightarrow> gs1\<lparr>gameWinner := Some (parseIntKey playerId)\<rparr>)
      in gs2\<lparr>roundEndTriggered := True, isRoundEndModalOpen := True\<rparr>)"

text \<open>\<^verbatim>\<open>players.find(p => p.id === ref)\<close>, as the index of the first match.\<close>

fun findPlayerIndex :: "playerRef \<Rightarrow> player list \<Rightarrow> nat option" where
  "findPlayerIndex ref [] = None"
| "findPlayerIndex ref (p # ps) =
     (if ref = PId (id_p p) then Some 0 else map_option Suc (findPlayerIndex ref ps))"

text \<open>The host is the player with id 1; \<^verbatim>\<open>hostPlayer?.autoDrawEnabled === true\<close>.\<close>

definition hostAutoDraw :: "player list \<Rightarrow> bool" where
  "hostAutoDraw ps =
     (case findPlayerIndex (PId 1) ps of
        None \<Rightarrow> False
      | Some i \<Rightarrow> autoDrawEnabled (ps ! i) = Some True)"

text \<open>One card from the front of the deck to the end of the hand.\<close>

definition drawOne :: "player \<Rightarrow> player" where
  "drawOne p = p\<lparr>deck := tl (deck p), hand := hand p @ [hd (deck p)]\<rparr>"

definition performDrawPhase :: "gameState \<Rightarrow> gameState" where
  "performDrawPhase gameState =
     (if activePlayerId gameState = PNull then gameState\<lparr>currentPhase := 0\<rparr>
      else (case findPlayerIndex (activePlayerId gameState) (players gameState) of
        None \<Rightarrow> gameState\<lparr>currentPhase := 0\<rparr>
      | Some i \<Rightarrow>
          (let activePlayer = players gameState ! i in
           if deck activePlayer = [] then gameState\<lparr>currentPhase := 0\<rparr>
           else
             let shouldDraw =
                   (if isDummy activePlayer then hostAutoDraw (players gameState)
                    else autoDrawEnabled activePlayer \<noteq> Some False);
                 gs1 = (if shouldDraw
                        then gameState\<lparr>players := (players gameState)[i := drawOne activePlayer]\<rparr>
                        else gameState);
                 gs2 = gs1\<lparr>currentPhase := 0\<rparr>
             in if checkRoundEnd gs2 False then endRound gs2 else gs2)))"

subsection \<open>Handlers\<close>

text \<open>
  A handler receives the session's state as found by the registry (\<open>None\<close>: no such
  game) and the payload fields; it yields the error it reports to the client, if any,
  and the session's state afterwards. Broadcasting and logging are output only.
\<close>

text \<open>
  The reported errors, by their messages: \<open>GameNotFound\<close> "Game not found",
  \<open>GameNotStarted\<close> "Game has not started", \<open>PhaseIndexNotInteger\<close> "Invalid phase
  index; must be an integer", \<open>PhaseIndexOutOfRange\<close> "Invalid phase index. Must be
  between -1 and 3", \<open>NoActiveReadyCheck\<close> "No active ready check", \<open>PlayerIdRequired\<close>
  "Player ID is required", \<open>PlayerNotInGame\<close> "Player with ID ... not found in game",
  \<open>FailedToMarkReady\<close> "Failed to mark player as ready", \<open>EnabledNotBoolean\<close>
  "Invalid enabled value: must be a boolean", \<open>PlayerNotFound\<close> "Player not found",
  \<open>GameAlreadyStarted\<close> "Game already started".
\<close>

datatype error =
    GameNotFound
  | GameNotStarted
  | PhaseIndexNotInteger
  | PhaseIndexOutOfRange
  | NoActiveReadyCheck
  | PlayerIdRequired
  | PlayerNotInGame playerRef
  | FailedToMarkReady
  | EnabledNotBoolean
  | PlayerNotFound
  | GameAlreadyStarted

type_synonym outcome = "error option \<times> gameState option"

definition handleToggleActivePlayer :: "gameState option \<Rightarrow> playerRef \<Rightarrow> outcome" where
  "handleToggleActivePlayer g playerId =
     (case g of
        None \<Rightarrow> (Some GameNotFound, None)
      | Some gameState \<Rightarrow>
          (let previousActivePlayerId = activePlayerId gameState in
           if previousActivePlayerId = playerId then
             (let gs1 = gameState\<lparr>activePlayerId := PUndefined\<rparr> in
              if playerId = startingPlayerId gs1 \<and> currentPhase gs1 = 0 then
                (if checkRoundEnd gs1 True then (None, Some (endRound gs1))
                 else (None, Some gs1))
              else (None, Some gs1))
           else
             (None, Some (performDrawPhase
                            (gameState\<lparr>activePlayerId := playerId, currentPhase := - 1\<rparr>)))))"

text \<open>
  The remainder operator \<^verbatim>\<open>%\<close> truncates towards zero: the result has the sign of the
  dividend. (The divisor is the constant 4 wherever it is used.)
\<close>

definition jsRem :: "int \<Rightarrow> int \<Rightarrow> int" where
  "jsRem a b = sgn a * (\<bar>a\<bar> mod \<bar>b\<bar>)"

text \<open>\<^verbatim>\<open>gameState.currentPhase || 0\<close>\<close>

definition phaseOr0 :: "int \<Rightarrow> int" where
  "phaseOr0 ph = (if ph = 0 then 0 else ph)"

definition handleNextPhase :: "gameState option \<Rightarrow> outcome" where
  "handleNextPhase g =
     (case g of
        None \<Rightarrow> (Some GameNotFound, None)
      | Some gameState \<Rightarrow>
          if \<not> isGameStarted gameState then (Some GameNotStarted, Some gameState)
          else
            (let currentPhase' = phaseOr0 (currentPhase gameState);
                 nextPhase = jsRem (currentPhase' + 1) 4
             in (None, Some (gameState\<lparr>currentPhase := nextPhase\<rparr>))))"

definition handlePrevPhase :: "gameState option \<Rightarrow> outcome" where
  "handlePrevPhase g =
     (case g of
        None \<Rightarrow> (Some GameNotFound, None)
      | Some gameState \<Rightarrow>
          if \<not> isGameStarted gameState then (Some GameNotStarted, Some gameState)
          else
            (let currentPhase' = phaseOr0 (currentPhase gameState);
                 prevPhase = jsRem (currentPhase' - 1 + 4) 4
             in (None, Some (gameState\<lparr>currentPhase := prevPhase\<rparr>))))"

text \<open>
  The payload field \<^verbatim>\<open>phaseIndex\<close> is untyped. The model covers \<^verbatim>\<open>undefined\<close>,
  \<^verbatim>\<open>null\<close>, booleans and numbers (a finite number is a rational; the other numbers are
  \<open>NaN\<close> and the two infinities); the conversion of strings, arrays and objects by
  \<^verbatim>\<open>Number(...)\<close> is not modelled.
\<close>

datatype jsNumber = Num rat | NaN | PosInfinity | NegInfinity

datatype jsValue = JUndefined | JNull | JBool bool | JNumber jsNumber

fun toNumber :: "jsValue \<Rightarrow> jsNumber" where
  "toNumber JUndefined = NaN"
| "toNumber JNull = Num 0"
| "toNumber (JBool b) = (if b then Num 1 else Num 0)"
| "toNumber (JNumber n) = n"

fun isInteger :: "jsNumber \<Rightarrow> bool" where
  "isInteger (Num q) = (of_int \<lfloor>q\<rfloor> = q)"
| "isInteger _ = False"

fun isNaN :: "jsNumber \<Rightarrow> bool" where
  "isNaN NaN = True"
| "isNaN _ = False"

text \<open>\<open>numLess x q\<close> is \<^verbatim>\<open>x < q\<close> and \<open>numGe x q\<close> is \<^verbatim>\<open>x >= q\<close>; both are false on \<open>NaN\<close>.\<close>

fun numLess :: "jsNumber \<Rightarrow> rat \<Rightarrow> bool" where
  "numLess (Num a) q = (a < q)"
| "numLess NegInfinity q = True"
| "numLess _ q = False"

fun numGe :: "jsNumber \<Rightarrow> rat \<Rightarrow> bool" where
  "numGe (Num a) q = (a \<ge> q)"
| "numGe PosInfinity q = True"
| "numGe _ q = False"

text \<open>The integer stored in \<^verbatim>\<open>currentPhase\<close> once the number has passed validation.\<close>

fun numToInt :: "jsNumber \<Rightarrow> int" where
  "numToInt (Num q) = \<lfloor>q\<rfloor>"
| "numToInt _ = 0"

definition handleSetPhase :: "gameState option \<Rightarrow> jsValue \<Rightarrow> outcome" where
  "handleSetPhase g phaseIndex =
     (case g of
        None \<Rightarrow> (Some GameNotFound, None)
      | Some gameState \<Rightarrow>
          if \<not> isGameStarted gameState then (Some GameNotStarted, Some gameState)
          else
            (let numericPhaseIndex = toNumber phaseIndex in
             if \<not> isInteger numericPhaseIndex \<or> isNaN numericPhaseIndex
               then (Some PhaseIndexNotInteger, Some gameState)
             else if numLess numericPhaseIndex (- 1) \<or> numGe numericPhaseIndex 4
               then (Some PhaseIndexOutOfRange, Some gameState)
             else (None, Some (gameState\<lparr>currentPhase := numToInt numericPhaseIndex\<rparr>))))"





section \<open>Ready check and match start\<close>



text \<open>
  The starting-hand loop \<^verbatim>\<open>for (let i = 0; i < cardsToDraw && i < player.deck.length; i++)\<close>
  reads the length of the deck at every test, after the cards drawn so far have left it.
\<close>

function drawCards :: "nat \<Rightarrow> nat \<Rightarrow> player \<Rightarrow> player" where
  "drawCards i cardsToDraw p =
     (if i < cardsToDraw \<and> i < length (deck p)
      then drawCards (i + 1) cardsToDraw (drawOne p)
      else p)"
  by pat_completeness auto
termination
  by (relation "measure (\<lambda>(i, cardsToDraw, p). cardsToDraw - i)") auto

declare drawCards.simps [simp del]

definition startingHand :: "bool \<Rightarrow> player \<Rightarrow> player" where
  "startingHand hostAutoDrawEnabled p =
     (if length (hand p) > 0 then p
      else
        let shouldDraw = (if isDummy p then hostAutoDrawEnabled
                          else autoDrawEnabled p \<noteq> Some False)
        in if \<not> shouldDraw then p else drawCards 0 6 p)"

text \<open>\<^verbatim>\<open>!data.playerId\<close>: \<^verbatim>\<open>undefined\<close>, \<^verbatim>\<open>null\<close> and \<open>0\<close> are falsy.\<close>

fun falsyRef :: "playerRef \<Rightarrow> bool" where
  "falsyRef PNull = True"
| "falsyRef PUndefined = True"
| "falsyRef (PId n) = (n = 0)"

text \<open>
  \<open>randomIndex\<close> stands for \<^verbatim>\<open>Math.floor(Math.random() * allPlayers.length)\<close>, which is
  below the length of \<^verbatim>\<open>allPlayers\<close>. Reading \<^verbatim>\<open>.id\<close> of a missing element would throw;
  the handler's \<^verbatim>\<open>catch\<close> reports the failure and leaves the mutations made so far.
\<close>

definition handlePlayerReady :: "gameState option \<Rightarrow> playerRef \<Rightarrow> nat \<Rightarrow> outcome" where
  "handlePlayerReady g playerId randomIndex =
     (case g of
        None \<Rightarrow> (Some GameNotFound, None)
      | Some gameState \<Rightarrow>
          if \<not> isReadyCheckActive gameState then (Some NoActiveReadyCheck, Some gameState)
          else if isGameStarted gameState then (None, Some gameState)
          else if falsyRef playerId then (Some PlayerIdRequired, Some gameState)
          else (case findPlayerIndex playerId (players gameState) of
            None \<Rightarrow> (Some (PlayerNotInGame playerId), Some gameState)
          | Some i \<Rightarrow>
              (let gs1 = gameState\<lparr>players :=
                           (players gameState)[i := (players gameState ! i)\<lparr>isReady := True\<rparr>]\<rparr>;
                   realPlayers = filter (\<lambda>p. \<not> isDummy p \<and> \<not> isDisconnected p) (players gs1);
                   allReady = (length realPlayers > 0 \<and> list_all isReady realPlayers)
               in if allReady \<and> length realPlayers \<ge> 1 then
                    (let gs2 = gs1\<lparr>isReadyCheckActive := False, isGameStarted := True,
                                   autoDrawnPlayers := []\<rparr>;
                         allPlayers = filter (\<lambda>p. \<not> isDisconnected p) (players gs2)
                     in if randomIndex \<ge> length allPlayers then (Some FailedToMarkReady, Some gs2)
                        else
                          let chosen = PId (id_p (allPlayers ! randomIndex));
                              gs3 = gs2\<lparr>startingPlayerId := chosen, activePlayerId := chosen\<rparr>;
                              hostAutoDrawEnabled = hostAutoDraw (players gs3);
                              gs4 = gs3\<lparr>players :=
                                      map (startingHand hostAutoDrawEnabled) (players gs3)\<rparr>
                          in (None, Some (performDrawPhase (gs4\<lparr>currentPhase := - 1\<rparr>))))
                  else (None, Some gs1))))"

section \<open>The requests of a session\<close>



section \<open>Board status engine\<close>

definition GRID_MAX_SIZE :: nat where
  "GRID_MAX_SIZE = 7"

definition HERO_MR_PEARL_ID :: string where
  "HERO_MR_PEARL_ID = ''mrPearlDoF''"

definition HERO_REVEREND_ID :: string where
  "HERO_REVEREND_ID = ''reverendOfTheChoir''"

definition createInitialBoard :: board where
  "createInitialBoard = replicate GRID_MAX_SIZE (replicate GRID_MAX_SIZE None)"

text \<open>
  \<open>cardAt b r c\<close> is \<^verbatim>\<open>newBoard[r][c].card\<close> and \<open>setCardAt\<close> stands for an assignment to a
  property of that card object. Every loop of the engine runs its indices below
  \<^verbatim>\<open>GRID_SIZE = newBoard.length\<close>, so on a square board (every row as long as the board,
  \<open>squareBoard\<close>) all reads and writes are in range; the properties proved below assume a
  square board. Each cell holds its own card object (the board is a fresh deep clone).
\<close>

definition cardAt :: "board \<Rightarrow> nat \<Rightarrow> nat \<Rightarrow> card option" where
  "cardAt b r c = b ! r ! c"

definition setCardAt :: "board \<Rightarrow> nat \<Rightarrow> nat \<Rightarrow> card \<Rightarrow> board" where
  "setCardAt b r c k = b[r := (b ! r)[c := Some k]]"

definition squareBoard :: "nat \<Rightarrow> board \<Rightarrow> bool" where
  "squareBoard n b = (length b = n \<and> list_all (\<lambda>row. length row = n) b)"

text \<open>The nested iteration \<^verbatim>\<open>for r ... for c ...\<close> over the whole grid, in row-major order.\<close>

definition forEachCell :: "(nat \<Rightarrow> nat \<Rightarrow> board \<Rightarrow> board) \<Rightarrow> board \<Rightarrow> board" where
  "forEachCell body b =
     fold (\<lambda>(r, c) nb. body r c nb) (List.product [0..<length b] [0..<length b]) b"

text \<open>\<^verbatim>\<open>card.statuses?.some(s => s.type === t)\<close>; a card without a status list has none.\<close>

definition hasStatus :: "string \<Rightarrow> card \<Rightarrow> bool" where
  "hasStatus t k = (case statuses k of None \<Rightarrow> False | Some ss \<Rightarrow> list_ex (\<lambda>s. type_s s = t) ss)"

definition isStunned :: "card \<Rightarrow> bool" where
  "isStunned k = hasStatus ''Stun'' k"

subsection \<open>Step 1: reset of the derived properties\<close>

definition resetCard :: "card \<Rightarrow> card" where
  "resetCard k =
     k\<lparr>statuses := (case statuses k of
                       None \<Rightarrow> None
                     | Some ss \<Rightarrow>
                         Some (filter (\<lambda>s. type_s s \<noteq> ''Support'' \<and> type_s s \<noteq> ''Threat'') ss)),
        bonusPower := None\<rparr>"

definition resetCell :: "nat \<Rightarrow> nat \<Rightarrow> board \<Rightarrow> board" where
  "resetCell r c nb =
     (case cardAt nb r c of None \<Rightarrow> nb | Some k \<Rightarrow> setCardAt nb r c (resetCard k))"

subsection \<open>Step 2: Support and Threat from the orthogonal neighbours\<close>

text \<open>
  \<^verbatim>\<open>playerTeamMap\<close>: a later player with the same id overwrites an earlier one; \<^verbatim>\<open>get\<close>
  yields \<^verbatim>\<open>undefined\<close> both for an unknown id and for a player without a team.
\<close>

definition playerTeamMap :: "player list \<Rightarrow> nat \<Rightarrow> nat option" where
  "playerTeamMap ps = fold (\<lambda>p m. m(id_p p := teamId p)) ps (\<lambda>_. None)"

definition neighborsPos :: "nat \<Rightarrow> nat \<Rightarrow> (int \<times> int) list" where
  "neighborsPos r c =
     [(int r - 1, int c), (int r + 1, int c), (int r, int c - 1), (int r, int c + 1)]"

type_synonym enemyMap = "(nat \<times> (int \<times> int) list) list"

text \<open>
  One round of the loop over \<^verbatim>\<open>neighborsPos\<close>. The accumulator is the object
  \<^verbatim>\<open>enemyNeighborsByPlayer\<close> together with the flag \<^verbatim>\<open>hasFriendlyNeighbor\<close>.
\<close>

definition scanNeighbor ::
    "(nat \<Rightarrow> nat option) \<Rightarrow> board \<Rightarrow> nat \<Rightarrow> int \<times> int \<Rightarrow> enemyMap \<times> bool \<Rightarrow> enemyMap \<times> bool" where
  "scanNeighbor teamOf nb owner pos acc =
     (let (nr, nc) = pos;
          (enemyNeighborsByPlayer, hasFriendlyNeighbor) = acc;
          GRID_SIZE = int (length nb)
      in if nr \<ge> 0 \<and> nr < GRID_SIZE \<and> nc \<ge> 0 \<and> nc < GRID_SIZE then
           (case cardAt nb (nat nr) (nat nc) of
              None \<Rightarrow> acc
            | Some neighborCard \<Rightarrow>
                (case ownerId neighborCard of
                   None \<Rightarrow> acc
                 | Some neighborOwnerId \<Rightarrow>
                     if \<not> isFaceDown neighborCard \<and> \<not> isStunned neighborCard then
                       (let ownerTeamId = teamOf owner;
                            neighborTeamId = teamOf neighborOwnerId;
                            isFriendly = (owner = neighborOwnerId \<or>
                                          (ownerTeamId \<noteq> None \<and> ownerTeamId = neighborTeamId))
                        in if isFriendly then (enemyNeighborsByPlayer, True)
                           else
                             (objSet neighborOwnerId
                                ((case objGet neighborOwnerId enemyNeighborsByPlayer of
                                    None \<Rightarrow> []
                                  | Some ps \<Rightarrow> ps) @ [(nr, nc)])
                                enemyNeighborsByPlayer,
                              hasFriendlyNeighbor))
                     else acc))
         else acc)"

definition scanNeighbors ::
    "(nat \<Rightarrow> nat option) \<Rightarrow> board \<Rightarrow> nat \<Rightarrow> nat \<Rightarrow> nat \<Rightarrow> enemyMap \<times> bool" where
  "scanNeighbors teamOf nb r c owner =
     fold (scanNeighbor teamOf nb owner) (neighborsPos r c) ([], False)"

text \<open>
  \<^verbatim>\<open>if (!card.statuses) card.statuses = []\<close> followed by the push of a status of type
  \<open>t\<close> unless the card already has one.
\<close>

definition pushStatus :: "string \<Rightarrow> nat \<Rightarrow> card \<Rightarrow> card" where
  "pushStatus t p k =
     (let ss = (case statuses k of None \<Rightarrow> [] | Some ss \<Rightarrow> ss)
      in if list_ex (\<lambda>s. type_s s = t) ss then k\<lparr>statuses := Some ss\<rparr>
         else k\<lparr>statuses := Some (ss @ [\<lparr>type_s = t, addedByPlayerId = p\<rparr>])\<rparr>)"

text \<open>Condition A: the first key, in enumeration order, with two or more neighbours.\<close>

definition threatA :: "enemyMap \<Rightarrow> nat option" where
  "threatA enemyNeighborsByPlayer =
     map_option (\<lambda>(enemyPlayerId, neighbors). parseIntKey enemyPlayerId)
       (find (\<lambda>(enemyPlayerId, neighbors). length neighbors \<ge> 2) enemyNeighborsByPlayer)"

text \<open>Condition B: an active cell on the border of the active grid; \<^verbatim>\<open>Object.keys(...)[0]\<close>.\<close>

definition threatB :: "int \<Rightarrow> int \<Rightarrow> nat \<Rightarrow> nat \<Rightarrow> enemyMap \<Rightarrow> nat option" where
  "threatB offset ags r c enemyNeighborsByPlayer =
     (let isActiveCell = (int r \<ge> offset \<and> int r < offset + ags \<and>
                          int c \<ge> offset \<and> int c < offset + ags)
      in if isActiveCell then
           (let isCardOnEdge = (int r = offset \<or> int r = offset + ags - 1 \<or>
                                int c = offset \<or> int c = offset + ags - 1);
                hasEnemyNeighbor = (length (objKeys enemyNeighborsByPlayer) > 0)
            in if isCardOnEdge \<and> hasEnemyNeighbor
               then Some (parseIntKey (hd (objKeys enemyNeighborsByPlayer)))
               else None)
         else None)"

definition adjacencyCard ::
    "(nat \<Rightarrow> nat option) \<Rightarrow> int \<Rightarrow> int \<Rightarrow> board \<Rightarrow> nat \<Rightarrow> nat \<Rightarrow> nat \<Rightarrow> card \<Rightarrow> card" where
  "adjacencyCard teamOf offset ags nb r c owner k =
     (let (enemyNeighborsByPlayer, hasFriendlyNeighbor) = scanNeighbors teamOf nb r c owner;
          k1 = (if hasFriendlyNeighbor then pushStatus ''Support'' owner k else k);
          threateningPlayerId =
            (case threatA enemyNeighborsByPlayer of
               Some p \<Rightarrow> Some p
             | None \<Rightarrow> threatB offset ags r c enemyNeighborsByPlayer)
      in case threateningPlayerId of
           None \<Rightarrow> k1
         | Some p \<Rightarrow> pushStatus ''Threat'' p k1)"

definition adjacencyCell ::
    "(nat \<Rightarrow> nat option) \<Rightarrow> int \<Rightarrow> int \<Rightarrow> nat \<Rightarrow> nat \<Rightarrow> board \<Rightarrow> board" where
  "adjacencyCell teamOf offset ags r c nb =
     (case cardAt nb r c of
        None \<Rightarrow> nb
      | Some k \<Rightarrow>
          (case ownerId k of
             None \<Rightarrow> nb
           | Some owner \<Rightarrow>
               if isFaceDown k then nb
               else setCardAt nb r c (adjacencyCard teamOf offset ags nb r c owner k)))"

subsection \<open>Step 3: hero passives\<close>

record heroPosition =
  heroR :: nat
  heroC :: nat
  heroOwnerId :: nat
  heroBaseId :: string

text \<open>The accumulator is the pair of arrays \<^verbatim>\<open>reverends\<close> and \<^verbatim>\<open>mrPearls\<close>.\<close>

definition collectHero ::
    "board \<Rightarrow> nat \<times> nat \<Rightarrow> heroPosition list \<times> heroPosition list
       \<Rightarrow> heroPosition list \<times> heroPosition list" where
  "collectHero nb pos acc =
     (let (r, c) = pos; (reverends, mrPearls) = acc
      in case cardAt nb r c of
           None \<Rightarrow> acc
         | Some k \<Rightarrow>
             (case baseId k of
                None \<Rightarrow> acc
              | Some bid \<Rightarrow>
                  (case ownerId k of
                     None \<Rightarrow> acc
                   | Some owner \<Rightarrow>
                       if bid \<noteq> [] \<and> \<not> isFaceDown k \<and> \<not> isStunned k then
                         (let hero = \<lparr>heroR = r, heroC = c, heroOwnerId = owner, heroBaseId = bid\<rparr>
                          in if bid = HERO_REVEREND_ID then (reverends @ [hero], mrPearls)
                             else if bid = HERO_MR_PEARL_ID then (reverends, mrPearls @ [hero])
                             else acc)
                       else acc)))"

definition collectHeroes :: "board \<Rightarrow> heroPosition list \<times> heroPosition list" where
  "collectHeroes nb =
     fold (collectHero nb) (List.product [0..<length nb] [0..<length nb]) ([], [])"

definition supportTarget :: "nat \<Rightarrow> nat \<Rightarrow> nat \<Rightarrow> board \<Rightarrow> board" where
  "supportTarget owner r c nb =
     (case cardAt nb r c of
        None \<Rightarrow> nb
      | Some target \<Rightarrow>
          if ownerId target = Some owner \<and> \<not> isFaceDown target
          then setCardAt nb r c (pushStatus ''Support'' owner target)
          else nb)"

text \<open>
  The keys \<^verbatim>\<open>`${r}-${ownerId}`\<close> of the sets of processed lines are the pairs
  \<open>(r, ownerId)\<close>: the two numbers determine the string and the string determines them.
\<close>

definition reverendStep ::
    "heroPosition \<Rightarrow> board \<times> (nat \<times> nat) set \<times> (nat \<times> nat) set
       \<Rightarrow> board \<times> (nat \<times> nat) set \<times> (nat \<times> nat) set" where
  "reverendStep hero st =
     (let (nb, processedRows, processedCols) = st;
          r = heroR hero; c = heroC hero; owner = heroOwnerId hero;
          rowKey = (r, owner);
          (nb1, processedRows1) =
            (if rowKey \<notin> processedRows
             then (fold (\<lambda>i b. supportTarget owner r i b) [0..<length nb] nb,
                   insert rowKey processedRows)
             else (nb, processedRows));
          colKey = (c, owner);
          (nb2, processedCols1) =
            (if colKey \<notin> processedCols
             then (fold (\<lambda>i b. supportTarget owner i c b) [0..<length nb1] nb1,
                   insert colKey processedCols)
             else (nb1, processedCols))
      in (nb2, processedRows1, processedCols1))"

definition reverendPass :: "heroPosition list \<Rightarrow> board \<Rightarrow> board" where
  "reverendPass reverends nb = fst (fold reverendStep reverends (nb, {}, {}))"

text \<open>\<^verbatim>\<open>target.bonusPower = (target.bonusPower || 0) + 1\<close>\<close>

definition addBonus :: "card \<Rightarrow> card" where
  "addBonus k =
     k\<lparr>bonusPower :=
         Some ((case bonusPower k of None \<Rightarrow> 0 | Some v \<Rightarrow> (if v = 0 then 0 else v)) + 1)\<rparr>"

definition bonusTarget :: "nat \<Rightarrow> nat \<Rightarrow> nat \<Rightarrow> board \<Rightarrow> board" where
  "bonusTarget owner r c nb =
     (case cardAt nb r c of
        None \<Rightarrow> nb
      | Some target \<Rightarrow>
          if ownerId target = Some owner \<and> \<not> isFaceDown target \<and>
             baseId target \<noteq> Some HERO_MR_PEARL_ID
          then setCardAt nb r c (addBonus target)
          else nb)"

definition pearlStep ::
    "heroPosition \<Rightarrow> board \<times> (nat \<times> nat) set \<times> (nat \<times> nat) set
       \<Rightarrow> board \<times> (nat \<times> nat) set \<times> (nat \<times> nat) set" where
  "pearlStep hero st =
     (let (nb, processedRows, processedCols) = st;
          r = heroR hero; c = heroC hero; owner = heroOwnerId hero;
          rowKey = (r, owner);
          (nb1, processedRows1) =
            (if rowKey \<notin> processedRows
             then (fold (\<lambda>i b. bonusTarget owner r i b) [0..<length nb] nb,
                   insert rowKey processedRows)
             else (nb, processedRows));
          colKey = (c, owner);
          (nb2, processedCols1) =
            (if colKey \<notin> processedCols
             then (fold (\<lambda>i b. bonusTarget owner i c b) [0..<length nb1] nb1,
                   insert colKey processedCols)
             else (nb1, processedCols))
      in (nb2, processedRows1, processedCols1))"

definition pearlPass :: "heroPosition list \<Rightarrow> board \<Rightarrow> board" where
  "pearlPass mrPearls nb = fst (fold pearlStep mrPearls (nb, {}, {}))"

subsection \<open>The whole recomputation\<close>

definition gridOffset :: "board \<Rightarrow> int \<Rightarrow> int" where
  "gridOffset nb ags = (int (length nb) - ags) div 2"

definition resetPass :: "board \<Rightarrow> board" where
  "resetPass nb = forEachCell resetCell nb"

definition adjacencyPass :: "gameState \<Rightarrow> board \<Rightarrow> board" where
  "adjacencyPass gameState nb =
     forEachCell
       (adjacencyCell (playerTeamMap (players gameState))
          (gridOffset nb (activeGridSize gameState)) (activeGridSize gameState))
       nb"

definition heroPass :: "board \<Rightarrow> board" where
  "heroPass nb =
     (let (reverends, mrPearls) = collectHeroes nb
      in pearlPass mrPearls (reverendPass reverends nb))"

definition recalculateBoardStatuses :: "gameState \<Rightarrow> board" where
  "recalculateBoardStatuses gameState =
     heroPass (adjacencyPass gameState (resetPass (board gameState)))"

section \<open>Notions used in the statements\<close>

text \<open>The number of recorded rounds that list player \<open>p\<close> among their winners.\<close>

definition winCount :: "(nat \<times> nat list) list \<Rightarrow> nat \<Rightarrow> nat" where
  "winCount rw p = sum_list (map (\<lambda>winners. count_list winners p) (objValues rw))"


text \<open>
  The keys of an object whose properties were created in the order \<open>ks\<close> (repetitions
  are assignments to an existing property), in enumeration order: the array indices in
  ascending order, then the other keys in the order of their first occurrence.
\<close>

definition keyOrder :: "nat list \<Rightarrow> nat list" where
  "keyOrder ks =
     sort (remdups (filter isArrayIndex ks)) @
     rev (remdups (rev (filter (\<lambda>k. \<not> isArrayIndex k) ks)))"

text \<open>
  The players recorded as winners of some round, and the bookkeeping of a match as the
  handlers keep it: a match winner is on display in the open round-end modal; while
  there is no match winner, no recorded player has two round wins; ids are safe integers.
\<close>

definition recordedWinners :: "(nat \<times> nat list) list \<Rightarrow> nat list" where
  "recordedWinners rw = concat (objValues rw)"

definition matchInv :: "gameState \<Rightarrow> bool" where
  "matchInv gs =
     ((gameWinner gs \<noteq> None \<longrightarrow> isRoundEndModalOpen gs) \<and>
      (gameWinner gs = None \<longrightarrow>
         (\<forall>p\<in>set (recordedWinners (roundWinners gs)). winCount (roundWinners gs) p < 2)) \<and>
      (\<forall>i\<in>set (map id_p (players gs)). int i \<le> maxSafeInteger) \<and>
      (\<forall>p\<in>set (recordedWinners (roundWinners gs)). int p \<le> maxSafeInteger))"

text \<open>
  The first player with two recorded round wins, in the key order of the tally that
  \<open>endRound\<close> builds from the recorded rounds.
\<close>

definition matchWinnerOf :: "(nat \<times> nat list) list \<Rightarrow> nat option" where
  "matchWinnerOf rw = find (\<lambda>p. 2 \<le> winCount rw p) (keyOrder (recordedWinners rw))"

text \<open>
  \<open>sameBook\<close>: two states with the same bookkeeping of the match. \<open>winnerStep\<close>: what a
  handler may do to the match winner in one step; \<open>resets\<close> tells whether the handler is
  one of the two that start a new match.
\<close>

definition sameBook :: "gameState \<Rightarrow> gameState \<Rightarrow> bool" where
  "sameBook gs gs' =
     (gameWinner gs' = gameWinner gs \<and> roundWinners gs' = roundWinners gs \<and>
      isRoundEndModalOpen gs' = isRoundEndModalOpen gs \<and>
      map id_p (players gs') = map id_p (players gs))"

definition winnerStep :: "gameState \<Rightarrow> gameState \<Rightarrow> bool \<Rightarrow> bool" where
  "winnerStep gs gs' resets =
     (matchInv gs' \<and>
      (\<forall>w. gameWinner gs = Some w \<longrightarrow>
         gameWinner gs' = Some w \<or> (resets \<and> gameWinner gs' = None \<and> roundWinners gs' = [])) \<and>
      (\<forall>w. gameWinner gs = None \<and> gameWinner gs' = Some w \<longrightarrow>
         matchWinnerOf (roundWinners gs') = Some w))"


subsection \<open>Cell-wise description of the board engine\<close>

text \<open>
  What the engine reads of a card other than the one it is rewriting: owner, face-down
  flag, whether it is stunned, and the template id. No pass changes any of these.
\<close>

definition cview :: "card \<Rightarrow> nat option \<times> bool \<times> bool \<times> string option" where
  "cview k = (ownerId k, isFaceDown k, isStunned k, baseId k)"

definition sameView :: "nat \<Rightarrow> board \<Rightarrow> board \<Rightarrow> bool" where
  "sameView n b b' =
     (squareBoard n b \<and> squareBoard n b' \<and>
      (\<forall>r<n. \<forall>c<n. map_option cview (cardAt b r c) = map_option cview (cardAt b' r c)))"

text \<open>Rewriting the card of one cell, if there is one.\<close>

definition mapCell :: "nat \<Rightarrow> nat \<Rightarrow> (card \<Rightarrow> card) \<Rightarrow> board \<Rightarrow> board" where
  "mapCell r c h nb = (case cardAt nb r c of None \<Rightarrow> nb | Some k \<Rightarrow> setCardAt nb r c (h k))"

text \<open>\<open>cellsAre n nb0 F nb\<close>: the board \<open>nb\<close> is \<open>nb0\<close> with every card rewritten by \<open>F\<close>.\<close>

definition cellsAre :: "nat \<Rightarrow> board \<Rightarrow> (nat \<Rightarrow> nat \<Rightarrow> card \<Rightarrow> card) \<Rightarrow> board \<Rightarrow> bool" where
  "cellsAre n nb0 F nb =
     (sameView n nb0 nb \<and> (\<forall>r<n. \<forall>c<n. cardAt nb r c = map_option (F r c) (cardAt nb0 r c)))"

text \<open>The effect of one round of the adjacency loop on the card of its cell.\<close>

definition adjC :: "(nat \<Rightarrow> nat option) \<Rightarrow> int \<Rightarrow> int \<Rightarrow> board \<Rightarrow> nat \<Rightarrow> nat \<Rightarrow> card \<Rightarrow> card" where
  "adjC teamOf offset ags nb r c k =
     (case ownerId k of
        None \<Rightarrow> k
      | Some owner \<Rightarrow> if isFaceDown k then k else adjacencyCard teamOf offset ags nb r c owner k)"

definition threatOf :: "int \<Rightarrow> int \<Rightarrow> nat \<Rightarrow> nat \<Rightarrow> enemyMap \<Rightarrow> nat option" where
  "threatOf offset ags r c en =
     (case threatA en of Some p \<Rightarrow> Some p | None \<Rightarrow> threatB offset ags r c en)"

text \<open>
  The effect of the hero passes on one card: \<open>supC\<close> and \<open>bonC\<close> are the bodies of the
  line iterations, \<open>revC\<close> and \<open>bonusC\<close> the accumulated effect of all the lines whose keys are
  in the sets \<open>RS\<close> (rows) and \<open>CS\<close> (columns).
\<close>

definition supC :: "nat \<Rightarrow> card \<Rightarrow> card" where
  "supC owner k =
     (if ownerId k = Some owner \<and> \<not> isFaceDown k then pushStatus ''Support'' owner k else k)"

definition revC :: "(nat \<times> nat) set \<Rightarrow> (nat \<times> nat) set \<Rightarrow> nat \<Rightarrow> nat \<Rightarrow> card \<Rightarrow> card" where
  "revC RS CS r c k =
     (case ownerId k of
        None \<Rightarrow> k
      | Some owner \<Rightarrow>
          if \<not> isFaceDown k \<and> ((r, owner) \<in> RS \<or> (c, owner) \<in> CS)
          then pushStatus ''Support'' owner k else k)"

definition bonC :: "nat \<Rightarrow> card \<Rightarrow> card" where
  "bonC owner k =
     (if ownerId k = Some owner \<and> \<not> isFaceDown k \<and> baseId k \<noteq> Some HERO_MR_PEARL_ID
      then addBonus k else k)"

definition lineHits :: "(nat \<times> nat) set \<Rightarrow> (nat \<times> nat) set \<Rightarrow> nat \<Rightarrow> nat \<Rightarrow> nat \<Rightarrow> nat" where
  "lineHits RS CS r c owner =
     (if (r, owner) \<in> RS then 1 else 0) + (if (c, owner) \<in> CS then 1 else 0)"

definition bonusC :: "(nat \<times> nat) set \<Rightarrow> (nat \<times> nat) set \<Rightarrow> nat \<Rightarrow> nat \<Rightarrow> card \<Rightarrow> card" where
  "bonusC RS CS r c k =
     (case ownerId k of
        None \<Rightarrow> k
      | Some owner \<Rightarrow>
          if \<not> isFaceDown k \<and> baseId k \<noteq> Some HERO_MR_PEARL_ID
          then (addBonus ^^ lineHits RS CS r c owner) k else k)"

definition rowKeys :: "heroPosition list \<Rightarrow> (nat \<times> nat) set" where
  "rowKeys hs = (\<lambda>h. (heroR h, heroOwnerId h)) ` set hs"

definition colKeys :: "heroPosition list \<Rightarrow> (nat \<times> nat) set" where
  "colKeys hs = (\<lambda>h. (heroC h, heroOwnerId h)) ` set hs"

text \<open>A card whose missing status list has been replaced by the empty list.\<close>

definition touch :: "card \<Rightarrow> card" where
  "touch k = k\<lparr>statuses := Some (case statuses k of None \<Rightarrow> [] | Some ss \<Rightarrow> ss)\<rparr>"

text \<open>What the whole recomputation makes of the card \<open>k\<close> in cell \<open>(r, c)\<close>.\<close>

definition finalCard :: "gameState \<Rightarrow> nat \<Rightarrow> nat \<Rightarrow> card \<Rightarrow> card" where
  "finalCard gs r c k =
     (let b1 = resetPass (board gs);
          b2 = adjacencyPass gs b1;
          (reverends, mrPearls) = collectHeroes b2
      in bonusC (rowKeys mrPearls) (colKeys mrPearls) r c
           (revC (rowKeys reverends) (colKeys reverends) r c
              (adjC (playerTeamMap (players gs)) (gridOffset b1 (activeGridSize gs))
                 (activeGridSize gs) b1 r c (resetCard k))))"

text \<open>The statuses of a card, and those of one type.\<close>

definition statusList :: "card \<Rightarrow> status list" where
  "statusList k = (case statuses k of None \<Rightarrow> [] | Some ss \<Rightarrow> ss)"

definition statusesOfType :: "string \<Rightarrow> card \<Rightarrow> status list" where
  "statusesOfType t k = filter (\<lambda>s. type_s s = t) (statusList k)"

subsection \<open>Enemy neighbours in scan order\<close>



text \<open>
  The key that \<^verbatim>\<open>Object.keys(...)[0]\<close> yields for an object whose keys were created in
  the order \<open>ks\<close>: the smallest array index among them, or the first of them if none is
  an array index.
\<close>

definition firstKey :: "nat list \<Rightarrow> nat" where
  "firstKey ks =
     (let ix = filter isArrayIndex ks in if ix = [] then hd ks else Min (set ix))"


section \<open>Example sessions\<close>

definition plainCard :: "string \<Rightarrow> card" where
  "plainCard n =
     \<lparr>id_c = n, baseId = None, ownerId = None, isFaceDown = False, power_c = 1,
      bonusPower = None, statuses = None\<rparr>"

definition unitCard :: "string \<Rightarrow> string \<Rightarrow> nat \<Rightarrow> card" where
  "unitCard n bid owner =
     \<lparr>id_c = n, baseId = Some bid, ownerId = Some owner, isFaceDown = False, power_c = 1,
      bonusPower = None, statuses = None\<rparr>"

definition seat :: "nat \<Rightarrow> card list \<Rightarrow> int \<Rightarrow> player" where
  "seat i d s =
     \<lparr>id_p = i, teamId = None, hand = [], deck = d, score = s, isDummy = False,
      isDisconnected = False, isReady = False, autoDrawEnabled = None\<rparr>"

text \<open>A session before the match has started, on the board \<open>b\<close> with the players \<open>ps\<close>.\<close>

definition lobby :: "board \<Rightarrow> player list \<Rightarrow> gameState" where
  "lobby b ps =
     \<lparr>board = b, players = ps, activeGridSize = 5, currentPhase = 0,
      activePlayerId = PUndefined, startingPlayerId = PUndefined, currentRound = 1,
      turnNumber = 1, roundWinners = [], gameWinner = None, isGameStarted = False,
      isReadyCheckActive = False, isRoundEndModalOpen = False, roundEndTriggered = False,
      autoAbilitiesEnabled = False, autoDrawnPlayers = []\<rparr>"

text \<open>A started match in which player 1 began the round and is active.\<close>

definition running :: "board \<Rightarrow> player list \<Rightarrow> gameState" where
  "running b ps =
     (lobby b ps)\<lparr>isGameStarted := True, activePlayerId := PId 1, startingPlayerId := PId 1\<rparr>"

definition sixCards :: "string \<Rightarrow> card list" where
  "sixCards n = map (\<lambda>i. plainCard (n @ i)) [''1'', ''2'', ''3'', ''4'', ''5'', ''6'']"

text \<open>Player 1 becomes active with an empty deck and 20 points in round 1.\<close>

definition emptyDeckTurn :: gameState where
  "emptyDeckTurn =
     (running createInitialBoard [seat 1 [] 20, seat 2 [plainCard ''a''] 0])\<lparr>currentPhase := - 1\<rparr>"

text \<open>A ready check in which player 1 is ready and player 2 is not yet; both hold six cards.\<close>

definition readyRoom :: gameState where
  "readyRoom =
     (lobby createInitialBoard
        [(seat 1 (sixCards ''a'') 0)\<lparr>isReady := True\<rparr>, seat 2 (sixCards ''b'') 0])
     \<lparr>isReadyCheckActive := True\<rparr>"

definition waiting :: gameState where
  "waiting = lobby createInitialBoard [seat 1 [plainCard ''a''] 0, seat 2 [] 0]"

definition midTurn :: gameState where
  "midTurn = (running createInitialBoard [seat 1 [] 0, seat 2 [] 0])\<lparr>currentPhase := 2\<rparr>"

definition drawTurn :: gameState where
  "drawTurn =
     (running createInitialBoard [seat 1 [plainCard ''a''] 0, seat 2 [plainCard ''b''] 0])
     \<lparr>currentPhase := - 1\<rparr>"

definition scored :: "int \<Rightarrow> gameState" where
  "scored s = running createInitialBoard [seat 1 [] s, seat 2 [] 5]"



text \<open>A board of the full size with the given cards on it.\<close>

definition boardOf :: "(nat \<times> nat \<times> card) list \<Rightarrow> board" where
  "boardOf cards = fold (\<lambda>(r, c, k) b. setCardAt b r c k) cards createInitialBoard"

text \<open>A single Reverend of player 1 in the middle of the board.\<close>

definition loneReverend :: gameState where
  "loneReverend =
     running (boardOf [(3, 3, unitCard ''rev'' HERO_REVEREND_ID 1)]) [seat 1 [] 0, seat 2 [] 0]"

text \<open>
  Three players on the 7 by 7 board, active grid 5 by 5 (rows and columns 1 to 5).
  Player 1 has a unit on the upper border of the active grid at (1, 3), with a unit of
  player 3 above it and a unit of player 2 below it, and a Reverend at (4, 1) with
  another unit of player 1 in the same row at (4, 5). Player 2 has a Mr. Pearl at (2, 0).
\<close>

definition skirmish :: gameState where
  "skirmish =
     running
       (boardOf
          [(1, 3, unitCard ''x'' ''scout'' 1),
           (0, 3, unitCard ''u'' ''scout'' 3),
           (2, 3, unitCard ''d'' ''scout'' 2),
           (4, 1, unitCard ''rev'' HERO_REVEREND_ID 1),
           (4, 5, unitCard ''ally'' ''scout'' 1),
           (2, 0, unitCard ''pearl'' HERO_MR_PEARL_ID 2)])
       [seat 1 [] 0, seat 2 [] 0, seat 3 [] 0]"

section \<open>Verification: turn phase state machine\<close>

subsection \<open>Round-end evaluation\<close>

lemma mathMax_eq: "mathMax xs = (if xs = [] then None else Some (Max (set xs)))"
  by (induction xs) (auto simp: max_def Max_insert split: option.splits)

text \<open>
  Claim C5. \<open>checkRoundEnd\<close> returns true exactly when the match has started, the
  round-end modal is closed, the phase is Setup (0), the check is the deselect variant or
  the active player is the starting player, and the maximum player score is at least
  \<open>10 + 10 \<times> currentRound\<close>. (With no player at all there is no maximum and the result is
  false.) In round 1 a maximum of 20 ends the round and a maximum of 19 does not.
\<close>

theorem checkRoundEnd_iff:
  "(checkRoundEnd gs d \<longleftrightarrow>
     (isGameStarted gs \<and> \<not> isRoundEndModalOpen gs \<and> currentPhase gs = 0 \<and>
      (d \<or> activePlayerId gs = startingPlayerId gs) \<and>
      players gs \<noteq> [] \<and>
      10 + 10 * int (currentRound gs) \<le> Max (set (map score (players gs))))) \<and>
   (isGameStarted gs \<and> \<not> isRoundEndModalOpen gs \<and> currentPhase gs = 0 \<and>
    (d \<or> activePlayerId gs = startingPlayerId gs) \<and> players gs \<noteq> [] \<and> currentRound gs = 1 \<longrightarrow>
      (Max (set (map score (players gs))) = 20 \<longrightarrow> checkRoundEnd gs d) \<and>
      (Max (set (map score (players gs))) = 19 \<longrightarrow> \<not> checkRoundEnd gs d))"
proof -
  have s: "map scoreOr0 (players gs) = map score (players gs)"
    by (simp add: scoreOr0_def)
  have main: "checkRoundEnd gs d \<longleftrightarrow>
     (isGameStarted gs \<and> \<not> isRoundEndModalOpen gs \<and> currentPhase gs = 0 \<and>
      (d \<or> activePlayerId gs = startingPlayerId gs) \<and>
      players gs \<noteq> [] \<and>
      10 + 10 * int (currentRound gs) \<le> Max (set (map score (players gs))))"
    unfolding checkRoundEnd_def Let_def s mathMax_eq geThreshold_def getRoundVictoryThreshold_def
    by auto
  show ?thesis unfolding main by auto
qed

theorem checkRoundEnd_iff_witness:
  "checkRoundEnd (scored 20) False \<and> \<not> checkRoundEnd (scored 19) False"
proof -
  have a: "isGameStarted (scored s) \<and> \<not> isRoundEndModalOpen (scored s) \<and> currentPhase (scored s) = 0 \<and>
     activePlayerId (scored s) = startingPlayerId (scored s) \<and> players (scored s) \<noteq> [] \<and>
     currentRound (scored s) = 1" for s
    by (simp add: scored_def running_def lobby_def)
  have m: "Max (set (map score (players (scored 20)))) = 20" "Max (set (map score (players (scored 19)))) = 19"
    by (simp_all add: scored_def running_def lobby_def seat_def)
  from checkRoundEnd_iff[of "scored 20" False] checkRoundEnd_iff[of "scored 19" False] a m
  show ?thesis by blast
qed

subsection \<open>Cyclic advance and retreat from the Draw phase\<close>

text \<open>
  Claim C10. On a started match whose phase is Draw (-1), the cyclic advance moves to
  Setup (0) and the cyclic retreat moves to Scoring (2); only \<open>currentPhase\<close> changes, so
  no card is drawn and every hand and deck stays as it was.
\<close>

theorem draw_phase_advance_retreat:
  "isGameStarted gs \<Longrightarrow> currentPhase gs = - 1 \<Longrightarrow>
     handleNextPhase (Some gs) = (None, Some (gs\<lparr>currentPhase := 0\<rparr>)) \<and>
     handlePrevPhase (Some gs) = (None, Some (gs\<lparr>currentPhase := 2\<rparr>)) \<and>
     players (gs\<lparr>currentPhase := 0\<rparr>) = players gs \<and>
     players (gs\<lparr>currentPhase := 2\<rparr>) = players gs"
  by (simp add: handleNextPhase_def handlePrevPhase_def phaseOr0_def jsRem_def)

theorem draw_phase_advance_retreat_witness:
  "isGameStarted drawTurn \<and> currentPhase drawTurn = - 1 \<and>
   handleNextPhase (Some drawTurn) = (None, Some (drawTurn\<lparr>currentPhase := 0\<rparr>)) \<and>
   handlePrevPhase (Some drawTurn) = (None, Some (drawTurn\<lparr>currentPhase := 2\<rparr>))"
proof -
  have h: "isGameStarted drawTurn" "currentPhase drawTurn = - 1"
    by (simp_all add: drawTurn_def running_def lobby_def)
  from draw_phase_advance_retreat[OF h] h show ?thesis by simp
qed

subsection \<open>Operations before the match has started\<close>

text \<open>
  Advance, retreat and explicit set of the phase test whether the match has started: on
  a match that has not started they report "Game has not started" and leave the game
  state as it was.
\<close>

lemma not_started_rejected:
  "\<not> isGameStarted gs \<Longrightarrow>
     handleNextPhase (Some gs) = (Some GameNotStarted, Some gs) \<and>
     handlePrevPhase (Some gs) = (Some GameNotStarted, Some gs) \<and>
     handleSetPhase (Some gs) v = (Some GameNotStarted, Some gs)"
  by (simp add: handleNextPhase_def handlePrevPhase_def handleSetPhase_def)

text \<open>
  Claim C4, evaluated on the code. The toggle of the active player makes no such test.
  On a match that has not started (phase 0, no active player), selecting player 1
  reports no error, makes player 1 active and moves the card of player 1's deck into
  player 1's hand: the state is not the one before the request.
\<close>

theorem toggle_before_start_mutates:
  "\<not> isGameStarted waiting \<and>
   fst (handleToggleActivePlayer (Some waiting) (PId 1)) = None \<and>
   snd (handleToggleActivePlayer (Some waiting) (PId 1)) =
     Some (waiting\<lparr>activePlayerId := PId 1,
                   players := [(seat 1 [] 0)\<lparr>hand := [plainCard ''a'']\<rparr>, seat 2 [] 0]\<rparr>) \<and>
   snd (handleToggleActivePlayer (Some waiting) (PId 1)) \<noteq> Some waiting"
  by code_simp

subsection \<open>Explicit set of the phase\<close>

text \<open>
  On a started match, a number that is an integer between -1 and 3 is accepted and
  becomes \<open>currentPhase\<close>; every other number (a fraction, an integer out of range, NaN, an
  infinity) and \<^verbatim>\<open>undefined\<close> are rejected with an error and the game state stays as it
  was; on a match that has not started every input is rejected.
\<close>

lemma handleSetPhase_number:
  "(isGameStarted gs \<and> - 1 \<le> k \<and> k \<le> 3 \<longrightarrow>
      handleSetPhase (Some gs) (JNumber (Num (of_int k))) = (None, Some (gs\<lparr>currentPhase := k\<rparr>))) \<and>
   ((\<forall>j. - 1 \<le> j \<and> j \<le> 3 \<longrightarrow> x \<noteq> Num (of_int j)) \<longrightarrow>
      (\<exists>e. handleSetPhase (Some gs) (JNumber x) = (Some e, Some gs))) \<and>
   (\<not> isGameStarted gs \<longrightarrow> handleSetPhase (Some gs) v = (Some GameNotStarted, Some gs))"
proof (intro conjI impI)
  assume "isGameStarted gs \<and> - 1 \<le> k \<and> k \<le> 3"
  then show "handleSetPhase (Some gs) (JNumber (Num (of_int k))) = (None, Some (gs\<lparr>currentPhase := k\<rparr>))"
    by (simp add: handleSetPhase_def Let_def)
next
  assume "\<not> isGameStarted gs"
  then show "handleSetPhase (Some gs) v = (Some GameNotStarted, Some gs)"
    by (simp add: handleSetPhase_def)
next
  assume a: "\<forall>j. - 1 \<le> j \<and> j \<le> 3 \<longrightarrow> x \<noteq> Num (of_int j)"
  show "\<exists>e. handleSetPhase (Some gs) (JNumber x) = (Some e, Some gs)"
  proof (cases x)
    case (Num q)
    have "\<not> (of_int \<lfloor>q\<rfloor> = q \<and> - 1 \<le> q \<and> q < 4)"
    proof
      assume h: "of_int \<lfloor>q\<rfloor> = q \<and> - 1 \<le> q \<and> q < 4"
      then have "- 1 \<le> \<lfloor>q\<rfloor>" "\<lfloor>q\<rfloor> \<le> 3" by linarith+
      with a have ne: "x \<noteq> Num (of_int \<lfloor>q\<rfloor>)" by blast
      from h have e: "of_int \<lfloor>q\<rfloor> = q" by blast
      have "x = Num (of_int \<lfloor>q\<rfloor>)" unfolding e by (rule Num)
      with ne show False by blast
    qed
    then show ?thesis using Num by (auto simp: handleSetPhase_def Let_def not_le not_less)
  qed (simp_all add: handleSetPhase_def Let_def)
qed

lemma handleSetPhase_undefined:
  "\<exists>e. handleSetPhase (Some gs) JUndefined = (Some e, Some gs)"
  by (simp add: handleSetPhase_def Let_def)

text \<open>
  Claim C9, evaluated on the code. On a started match the payload \<^verbatim>\<open>null\<close>, which is
  not an integer, is converted to 0 by \<^verbatim>\<open>Number(...)\<close> and accepted: no error is
  reported and the phase becomes 0. In the same way \<^verbatim>\<open>true\<close> is accepted as phase 1
  and \<^verbatim>\<open>false\<close> as phase 0.
\<close>

theorem handleSetPhase_accepts_null:
  assumes "isGameStarted gs"
  shows "handleSetPhase (Some gs) JNull = (None, Some (gs\<lparr>currentPhase := 0\<rparr>)) \<and>
         handleSetPhase (Some gs) (JBool True) = (None, Some (gs\<lparr>currentPhase := 1\<rparr>)) \<and>
         handleSetPhase (Some gs) (JBool False) = (None, Some (gs\<lparr>currentPhase := 0\<rparr>))"
  using assms by (simp add: handleSetPhase_def)

text \<open>A match in phase 2 is sent to phase 0 by \<^verbatim>\<open>null\<close> and to phase 1 by \<^verbatim>\<open>true\<close>.\<close>

theorem handleSetPhase_accepts_null_witness:
  "isGameStarted midTurn \<and> currentPhase midTurn = 2 \<and>
   handleSetPhase (Some midTurn) JNull = (None, Some (midTurn\<lparr>currentPhase := 0\<rparr>)) \<and>
   handleSetPhase (Some midTurn) (JBool True) = (None, Some (midTurn\<lparr>currentPhase := 1\<rparr>)) \<and>
   handleSetPhase (Some midTurn) (JBool False) = (None, Some (midTurn\<lparr>currentPhase := 0\<rparr>)) \<and>
   midTurn\<lparr>currentPhase := 0\<rparr> \<noteq> midTurn"
proof -
  have s: "isGameStarted midTurn" by code_simp
  have p: "currentPhase midTurn = 2" by code_simp
  have n: "midTurn\<lparr>currentPhase := 0\<rparr> \<noteq> midTurn"
  proof
    assume "midTurn\<lparr>currentPhase := 0\<rparr> = midTurn"
    then have "currentPhase (midTurn\<lparr>currentPhase := 0\<rparr>) = currentPhase midTurn" by simp
    with p show False by simp
  qed
  from handleSetPhase_accepts_null[OF s] s p n show ?thesis by blast
qed

subsection \<open>The Draw procedure\<close>

text \<open>Every path of the Draw procedure ends in the Setup phase.\<close>

lemma endRound_currentPhase: "currentPhase (endRound gs) = currentPhase gs"
  by (simp add: endRound_def Let_def split: option.splits prod.splits)

lemma performDrawPhase_currentPhase: "currentPhase (performDrawPhase gs) = 0"
  by (simp add: performDrawPhase_def Let_def endRound_currentPhase split: option.splits)

text \<open>
  Claim C2, evaluated on the code. Player 1 started the round, is active, has 20 points
  in round 1 and an empty deck. \<open>performDrawPhase\<close> sets the phase to Setup (0) and
  returns at once: although the round-end evaluation of the resulting state is true, it
  is not run, no winner is recorded and the modal stays closed.
\<close>

theorem performDrawPhase_empty_deck_skips_round_end:
  "performDrawPhase emptyDeckTurn = emptyDeckTurn\<lparr>currentPhase := 0\<rparr> \<and>
   checkRoundEnd (emptyDeckTurn\<lparr>currentPhase := 0\<rparr>) False \<and>
   \<not> isRoundEndModalOpen (performDrawPhase emptyDeckTurn) \<and>
   roundWinners (performDrawPhase emptyDeckTurn) = [] \<and>
   performDrawPhase emptyDeckTurn \<noteq> endRound (emptyDeckTurn\<lparr>currentPhase := 0\<rparr>)"
  by code_simp

subsection \<open>Starting hands\<close>

text \<open>
  The starting-hand loop compares its counter with the length of the shrinking deck, so
  it stops once the counter has reached the number of cards left.
\<close>

lemma drawCards_hand:
  "length (hand (drawCards i n p)) =
     length (hand p) + min (n - i) ((length (deck p) + 1 - i) div 2)"
proof (induction i n p rule: drawCards.induct)
  case (1 i n p)
  show ?case
  proof (cases "i < n \<and> i < length (deck p)")
    case True
    then have "length (hand (drawCards i n p)) = length (hand (drawCards (i + 1) n (drawOne p)))"
      by (subst drawCards.simps) simp
    also have "\<dots> = length (hand (drawOne p)) +
        min (n - (i + 1)) ((length (deck (drawOne p)) + 1 - (i + 1)) div 2)"
      using True by (intro "1.IH") simp
    also have "\<dots> = length (hand p) + min (n - i) ((length (deck p) + 1 - i) div 2)"
      using True by (simp add: drawOne_def min_def) linarith
    finally show ?thesis .
  next
    case False
    then have "drawCards i n p = p" by (subst drawCards.simps) auto
    moreover have "min (n - i) ((length (deck p) + 1 - i) div 2) = 0"
      using False by (auto simp: min_def)
    ultimately show ?thesis by simp
  qed
qed

text \<open>
  A player who already holds a card is skipped; a player with an empty hand who is to
  draw receives half of the deck, rounded up, and at most six cards.
\<close>

lemma startingHand_skip: "hand p \<noteq> [] \<Longrightarrow> startingHand h p = p"
  by (simp add: startingHand_def)

lemma startingHand_count:
  assumes "hand p = []" "if isDummy p then h else autoDrawEnabled p \<noteq> Some False"
  shows "length (hand (startingHand h p)) = min 6 ((length (deck p) + 1) div 2)"
  using assms by (auto simp: startingHand_def Let_def drawCards_hand)

text \<open>
  Claim C8, evaluated on the code. Players 1 and 2 both have an empty hand, a deck of six
  cards and no auto-draw preference; player 2 completes the ready check and player 1 is
  chosen to start. The starting-hand step gives each of them three cards, not six
  (player 1 then receives a fourth card from the Draw procedure).
\<close>

theorem starting_hand_six_card_deck:
  "fst (handlePlayerReady (Some readyRoom) (PId 2) 0) = None \<and>
   map_option isGameStarted (snd (handlePlayerReady (Some readyRoom) (PId 2) 0)) = Some True \<and>
   map_option (\<lambda>gs. map (\<lambda>p. (map id_c (hand p), map id_c (deck p))) (players gs))
       (snd (handlePlayerReady (Some readyRoom) (PId 2) 0)) =
     Some [([''a1'', ''a2'', ''a3'', ''a4''], [''a5'', ''a6'']),
           ([''b1'', ''b2'', ''b3''], [''b4'', ''b5'', ''b6''])] \<and>
   map id_c (hand (startingHand False (seat 2 (sixCards ''b'') 0))) = [''b1'', ''b2'', ''b3'']"
  by code_simp

section \<open>Round wins and the match winner\<close>

subsection \<open>Objects and tallies\<close>

lemma objInsert_keys: "fst ` set (objInsert k v obj) = insert k (fst ` set obj)"
  by (induction obj) force+



lemma replace_keys:
  "map fst (map (\<lambda>(k', v'). if k' = k then (k', v) else (k', v')) obj) = map fst obj"
  by (induction obj) auto



lemma objSet_keys: "fst ` set (objSet k v obj) = insert k (fst ` set obj)"
proof (cases "k \<in> fst ` set obj")
  case True
  have "fst ` set (objSet k v obj) = set (map fst (objSet k v obj))" by simp
  also have "\<dots> = set (map fst obj)" using True unfolding objSet_def by (simp only: replace_keys set_map if_True)
  finally show ?thesis using True by auto
next
  case False
  then show ?thesis by (simp add: objSet_def objInsert_keys)
qed










subsection \<open>What \<open>endRound\<close> records and whom it makes the match winner\<close>










subsection \<open>The order of the keys\<close>






lemma keyOrder_distinct: "distinct (keyOrder ks)"
  by (auto simp: keyOrder_def)















subsection \<open>The bookkeeping of a match under the handlers\<close>
















lemma sameBook_trans: "sameBook a b \<Longrightarrow> sameBook b c \<Longrightarrow> sameBook a c"
  by (simp add: sameBook_def)













lemma recorded_empty: "recordedWinners [] = []"
  by (simp add: recordedWinners_def objValues_def)



lemma winnerStep_weaken: "winnerStep gs gs' False \<Longrightarrow> winnerStep gs gs' r"
  by (auto simp: winnerStep_def)





lemma matchInv_lobby:
  "\<forall>p\<in>set ps. int (id_p p) \<le> maxSafeInteger \<Longrightarrow> matchInv (lobby b ps)"
  by (simp add: matchInv_def lobby_def recorded_empty)



section \<open>Verification: board status engine\<close>

subsection \<open>Boards and single cells\<close>

lemma squareBoard_row: "squareBoard n b \<Longrightarrow> r < n \<Longrightarrow> length (b ! r) = n"
  by (simp add: squareBoard_def list_all_length)

lemma squareBoard_length: "squareBoard n b \<Longrightarrow> length b = n"
  by (simp add: squareBoard_def)

lemma squareBoard_setCardAt: "squareBoard n b \<Longrightarrow> squareBoard n (setCardAt b r c k)"
  by (cases "r < length b") (auto simp: squareBoard_def setCardAt_def list_all_length nth_list_update)

lemma cardAt_setCardAt:
  "squareBoard n b \<Longrightarrow> r < n \<Longrightarrow> c < n \<Longrightarrow>
   cardAt (setCardAt b r c k) r' c' = (if r' = r \<and> c' = c then Some k else cardAt b r' c')"
  by (auto simp: cardAt_def setCardAt_def squareBoard_def list_all_length nth_list_update)

lemma setCardAt_same: "cardAt b r c = Some k \<Longrightarrow> setCardAt b r c k = b"
  by (metis cardAt_def setCardAt_def list_update_id)

lemma squareBoard_mapCell: "squareBoard n b \<Longrightarrow> squareBoard n (mapCell r c h b)"
  by (simp add: mapCell_def squareBoard_setCardAt split: option.splits)

lemma cardAt_mapCell:
  "squareBoard n b \<Longrightarrow> r < n \<Longrightarrow> c < n \<Longrightarrow>
   cardAt (mapCell r c h b) r' c' =
     (if r' = r \<and> c' = c then map_option h (cardAt b r c) else cardAt b r' c')"
  by (auto simp: mapCell_def cardAt_setCardAt split: option.splits)

lemma board_eqI:
  assumes "squareBoard n b" "squareBoard n b'"
    and "\<And>r c. r < n \<Longrightarrow> c < n \<Longrightarrow> cardAt b r c = cardAt b' r c"
  shows "b = b'"
proof (rule nth_equalityI)
  show "length b = length b'" using assms(1,2) by (simp add: squareBoard_def)
next
  fix r assume "r < length b"
  then have r: "r < n" using assms(1) by (simp add: squareBoard_def)
  show "b ! r = b' ! r"
  proof (rule nth_equalityI)
    show "length (b ! r) = length (b' ! r)"
      using assms(1,2) r by (simp add: squareBoard_row)
  next
    fix c assume "c < length (b ! r)"
    then have "c < n" using assms(1) r by (simp add: squareBoard_row)
    from assms(3)[OF r this] show "b ! r ! c = b' ! r ! c" by (simp add: cardAt_def)
  qed
qed

lemma sameView_refl: "squareBoard n b \<Longrightarrow> sameView n b b"
  by (simp add: sameView_def)

lemma sameView_sym: "sameView n b b' \<Longrightarrow> sameView n b' b"
  by (simp add: sameView_def)

lemma sameView_trans: "sameView n a b \<Longrightarrow> sameView n b c \<Longrightarrow> sameView n a c"
  by (simp add: sameView_def)

lemma sameView_mapCell:
  assumes "squareBoard n b" "r < n" "c < n" "\<And>k. cview (h k) = cview k"
  shows "sameView n b (mapCell r c h b)"
  unfolding sameView_def
  using assms by (auto simp: squareBoard_mapCell cardAt_mapCell option.map_comp o_def)

lemma fold_mapCell:
  assumes view: "\<And>nb nb' r c. sameView n nb nb' \<Longrightarrow> r < n \<Longrightarrow> c < n \<Longrightarrow> H nb r c = H nb' r c"
    and keep: "\<And>nb r c k. cview (H nb r c k) = cview k"
  shows "squareBoard n b \<Longrightarrow> distinct ps \<Longrightarrow> \<forall>(r, c)\<in>set ps. r < n \<and> c < n \<Longrightarrow>
         sameView n b (fold (\<lambda>(r, c) nb. mapCell r c (H nb r c) nb) ps b) \<and>
         (\<forall>r<n. \<forall>c<n. cardAt (fold (\<lambda>(r, c) nb. mapCell r c (H nb r c) nb) ps b) r c =
            (if (r, c) \<in> set ps then map_option (H b r c) (cardAt b r c) else cardAt b r c))"
proof (induction ps arbitrary: b)
  case Nil
  then show ?case by (simp add: sameView_refl)
next
  case (Cons p ps)
  obtain r0 c0 where p: "p = (r0, c0)" by (cases p)
  from Cons.prems p have rng: "r0 < n" "c0 < n" by auto
  define b1 where "b1 = mapCell r0 c0 (H b r0 c0) b"
  have sq1: "squareBoard n b1" unfolding b1_def using Cons.prems(1) by (rule squareBoard_mapCell)
  have sv1: "sameView n b b1" unfolding b1_def
    using Cons.prems(1) rng keep by (intro sameView_mapCell) auto
  from Cons.prems have d: "distinct ps" and r: "\<forall>(r, c)\<in>set ps. r < n \<and> c < n" by auto
  note ih = Cons.IH[OF sq1 d r]
  have f: "fold (\<lambda>(r, c) nb. mapCell r c (H nb r c) nb) (p # ps) b =
           fold (\<lambda>(r, c) nb. mapCell r c (H nb r c) nb) ps b1"
    by (simp add: p b1_def)
  have notin: "(r0, c0) \<notin> set ps" using Cons.prems(2) p by simp
  show ?case unfolding f
  proof (intro conjI allI impI)
    show "sameView n b (fold (\<lambda>(r, c) nb. mapCell r c (H nb r c) nb) ps b1)"
      using sv1 ih by (blast intro: sameView_trans)
  next
    fix r c assume rc: "r < n" "c < n"
    have c1: "cardAt b1 r c = (if r = r0 \<and> c = c0 then map_option (H b r0 c0) (cardAt b r0 c0) else cardAt b r c)"
      unfolding b1_def using Cons.prems(1) rng by (rule cardAt_mapCell)
    have h1: "H b1 r c = H b r c" using view[OF sv1 rc] by simp
    from ih rc have "cardAt (fold (\<lambda>(r, c) nb. mapCell r c (H nb r c) nb) ps b1) r c =
        (if (r, c) \<in> set ps then map_option (H b1 r c) (cardAt b1 r c) else cardAt b1 r c)" by blast
    then show "cardAt (fold (\<lambda>(r, c) nb. mapCell r c (H nb r c) nb) ps b1) r c =
        (if (r, c) \<in> set (p # ps) then map_option (H b r c) (cardAt b r c) else cardAt b r c)"
      using c1 h1 notin p by auto
  qed
qed

subsection \<open>The reset pass and the adjacency pass, cell by cell\<close>

lemma positions_distinct: "distinct (List.product [0..<n] [0..<n])"
  by (simp add: distinct_product)

lemma positions_range: "\<forall>(r, c)\<in>set (List.product [0..<n] [0..<n]). r < n \<and> c < n"
  by auto

lemma positions_mem: "r < n \<Longrightarrow> c < n \<Longrightarrow> (r, c) \<in> set (List.product [0..<n] [0..<n])"
  by auto

lemma cview_resetCard: "cview (resetCard k) = cview k"
  by (auto simp: cview_def resetCard_def isStunned_def hasStatus_def list_ex_iff split: option.splits)

lemma cview_pushStatus: "t \<noteq> ''Stun'' \<Longrightarrow> cview (pushStatus t p k) = cview k"
  by (auto simp: cview_def pushStatus_def isStunned_def hasStatus_def list_ex_iff Let_def split: option.splits)

lemma cview_addBonus: "cview (addBonus k) = cview k"
  by (simp add: cview_def addBonus_def isStunned_def hasStatus_def)

lemma resetCell_mapCell: "resetCell r c nb = mapCell r c resetCard nb"
  by (simp add: resetCell_def mapCell_def)

lemma resetPass_cells:
  assumes "squareBoard n b"
  shows "sameView n b (resetPass b) \<and>
         (\<forall>r<n. \<forall>c<n. cardAt (resetPass b) r c = map_option resetCard (cardAt b r c))"
proof -
  have l: "length b = n" using assms by (simp add: squareBoard_def)
  have e: "resetPass b = fold (\<lambda>(r, c) nb. mapCell r c ((\<lambda>nb r c. resetCard) nb r c) nb)
                            (List.product [0..<n] [0..<n]) b"
    by (simp add: resetPass_def forEachCell_def l resetCell_mapCell)
  show ?thesis unfolding e
    using fold_mapCell[where H = "\<lambda>nb r c. resetCard" and n = n and b = b
                         and ps = "List.product [0..<n] [0..<n]",
                       OF _ _ assms positions_distinct positions_range]
    by (simp add: cview_resetCard)
qed

lemma sameView_cell:
  assumes "sameView n nb nb'" "r < n" "c < n"
  shows "(cardAt nb r c = None \<longleftrightarrow> cardAt nb' r c = None) \<and>
         (\<forall>k k'. cardAt nb r c = Some k \<and> cardAt nb' r c = Some k' \<longrightarrow> cview k = cview k')"
proof -
  from assms have "map_option cview (cardAt nb r c) = map_option cview (cardAt nb' r c)"
    by (simp add: sameView_def)
  then show ?thesis by (cases "cardAt nb r c"; cases "cardAt nb' r c") auto
qed

lemma scanNeighbor_view:
  assumes sv: "sameView n nb nb'"
  shows "scanNeighbor teamOf nb owner pos acc = scanNeighbor teamOf nb' owner pos acc"
proof -
  obtain nr nc where pos: "pos = (nr, nc)" by (cases pos)
  from sv have l: "length nb = n" "length nb' = n" by (simp_all add: sameView_def squareBoard_def)
  show ?thesis
  proof (cases "nr \<ge> 0 \<and> nr < int n \<and> nc \<ge> 0 \<and> nc < int n")
    case False
    then show ?thesis unfolding scanNeighbor_def pos l by (auto simp: Let_def split: prod.splits)
  next
    case True
    then have rng: "nat nr < n" "nat nc < n" by auto
    from sameView_cell[OF sv rng]
    have n: "cardAt nb (nat nr) (nat nc) = None \<longleftrightarrow> cardAt nb' (nat nr) (nat nc) = None"
      and s: "\<And>k k'. cardAt nb (nat nr) (nat nc) = Some k \<Longrightarrow> cardAt nb' (nat nr) (nat nc) = Some k'
                 \<Longrightarrow> cview k = cview k'" by auto
    show ?thesis
    proof (cases "cardAt nb (nat nr) (nat nc)")
      case None
      with n have "cardAt nb' (nat nr) (nat nc) = None" by simp
      with None show ?thesis unfolding scanNeighbor_def pos l by (simp add: Let_def split: prod.splits)
    next
      case (Some k)
      with n obtain k' where k': "cardAt nb' (nat nr) (nat nc) = Some k'" by (cases "cardAt nb' (nat nr) (nat nc)") auto
      from s[OF Some k'] have "ownerId k = ownerId k'" "isFaceDown k = isFaceDown k'" "isStunned k = isStunned k'"
        by (simp_all add: cview_def)
      with Some k' show ?thesis unfolding scanNeighbor_def pos l
        by (cases "ownerId k'") (auto simp: Let_def split: prod.splits)
    qed
  qed
qed

lemma scanNeighbors_view:
  "sameView n nb nb' \<Longrightarrow> scanNeighbors teamOf nb r c owner = scanNeighbors teamOf nb' r c owner"
proof -
  assume sv: "sameView n nb nb'"
  have "scanNeighbor teamOf nb owner = scanNeighbor teamOf nb' owner"
    by (intro ext) (rule scanNeighbor_view[OF sv])
  then show ?thesis by (simp add: scanNeighbors_def)
qed

lemma adjC_view:
  "sameView n nb nb' \<Longrightarrow> adjC teamOf offset ags nb r c = adjC teamOf offset ags nb' r c"
  by (intro ext) (simp add: adjC_def adjacencyCard_def scanNeighbors_view[of n nb nb'] split: option.splits)

lemma cview_adjC: "cview (adjC teamOf offset ags nb r c k) = cview k"
  by (auto simp: adjC_def adjacencyCard_def Let_def cview_pushStatus split: option.splits prod.splits)

lemma adjacencyCell_mapCell:
  "adjacencyCell teamOf offset ags r c nb = mapCell r c (adjC teamOf offset ags nb r c) nb"
  by (auto simp: adjacencyCell_def mapCell_def adjC_def setCardAt_same split: option.splits)

lemma adjacencyPass_cells:
  assumes "squareBoard n b"
  shows "sameView n b (adjacencyPass gs b) \<and>
         (\<forall>r<n. \<forall>c<n. cardAt (adjacencyPass gs b) r c =
            map_option (adjC (playerTeamMap (players gs)) (gridOffset b (activeGridSize gs))
                          (activeGridSize gs) b r c) (cardAt b r c))"
proof -
  define H where "H = adjC (playerTeamMap (players gs)) (gridOffset b (activeGridSize gs)) (activeGridSize gs)"
  have l: "length b = n" using assms by (simp add: squareBoard_def)
  have e: "adjacencyPass gs b = fold (\<lambda>(r, c) nb. mapCell r c (H nb r c) nb)
                            (List.product [0..<n] [0..<n]) b"
    by (simp add: adjacencyPass_def forEachCell_def l adjacencyCell_mapCell H_def)
  have v: "\<And>nb nb' r c. sameView n nb nb' \<Longrightarrow> r < n \<Longrightarrow> c < n \<Longrightarrow> H nb r c = H nb' r c"
    unfolding H_def by (rule adjC_view)
  have k: "\<And>nb r c k. cview (H nb r c k) = cview k"
    unfolding H_def by (rule cview_adjC)
  from fold_mapCell[where H = H, OF v k assms positions_distinct positions_range]
  show ?thesis unfolding e H_def using positions_mem by simp
qed

subsection \<open>Iterating over one row or one column\<close>

lemma rowFold:
  assumes sq: "squareBoard n nb" and r0: "r0 < n" and keep: "\<And>k. cview (h k) = cview k"
  shows "cellsAre n nb (\<lambda>r c k. if r = r0 then h k else k) (fold (\<lambda>i b. mapCell r0 i h b) [0..<n] nb)"
proof -
  have e: "fold (\<lambda>i b. mapCell r0 i h b) [0..<n] nb =
           fold (\<lambda>(r, c) b. mapCell r c ((\<lambda>nb r c. h) b r c) b) (map (Pair r0) [0..<n]) nb"
    by (simp add: fold_map o_def)
  have d: "distinct (map (Pair r0) [0..<n])" by (simp add: distinct_map inj_on_def)
  have rg: "\<forall>(r, c)\<in>set (map (Pair r0) [0..<n]). r < n \<and> c < n" using r0 by auto
  have mem: "\<And>r c. c < n \<Longrightarrow> ((r, c) \<in> set (map (Pair r0) [0..<n])) = (r = r0)" by auto
  from fold_mapCell[where H = "\<lambda>nb r c. h" and n = n, OF _ _ sq d rg] keep
  have sv: "sameView n nb (fold (\<lambda>(r, c) b. mapCell r c h b) (map (Pair r0) [0..<n]) nb)"
    and cells: "\<And>r c. r < n \<Longrightarrow> c < n \<Longrightarrow>
       cardAt (fold (\<lambda>(r, c) b. mapCell r c h b) (map (Pair r0) [0..<n]) nb) r c =
         (if (r, c) \<in> set (map (Pair r0) [0..<n]) then map_option h (cardAt nb r c) else cardAt nb r c)"
    by blast+
  show ?thesis unfolding e cellsAre_def
  proof (intro conjI allI impI)
    show "sameView n nb (fold (\<lambda>(r, c) b. mapCell r c h b) (map (Pair r0) [0..<n]) nb)" by (rule sv)
  next
    fix r c assume rc: "r < n" "c < n"
    show "cardAt (fold (\<lambda>(r, c) b. mapCell r c h b) (map (Pair r0) [0..<n]) nb) r c =
          map_option (\<lambda>k. if r = r0 then h k else k) (cardAt nb r c)"
      unfolding cells[OF rc] mem[OF rc(2)] by (cases "r = r0") (simp_all add: option.map_ident)
  qed
qed

lemma colFold:
  assumes sq: "squareBoard n nb" and c0: "c0 < n" and keep: "\<And>k. cview (h k) = cview k"
  shows "cellsAre n nb (\<lambda>r c k. if c = c0 then h k else k) (fold (\<lambda>i b. mapCell i c0 h b) [0..<n] nb)"
proof -
  have e: "fold (\<lambda>i b. mapCell i c0 h b) [0..<n] nb =
           fold (\<lambda>(r, c) b. mapCell r c ((\<lambda>nb r c. h) b r c) b) (map (\<lambda>i. (i, c0)) [0..<n]) nb"
    by (simp add: fold_map o_def)
  have d: "distinct (map (\<lambda>i. (i, c0)) [0..<n])" by (simp add: distinct_map inj_on_def)
  have rg: "\<forall>(r, c)\<in>set (map (\<lambda>i. (i, c0)) [0..<n]). r < n \<and> c < n" using c0 by auto
  have mem: "\<And>r c. r < n \<Longrightarrow> ((r, c) \<in> set (map (\<lambda>i. (i, c0)) [0..<n])) = (c = c0)" by auto
  from fold_mapCell[where H = "\<lambda>nb r c. h" and n = n, OF _ _ sq d rg] keep
  have sv: "sameView n nb (fold (\<lambda>(r, c) b. mapCell r c h b) (map (\<lambda>i. (i, c0)) [0..<n]) nb)"
    and cells: "\<And>r c. r < n \<Longrightarrow> c < n \<Longrightarrow>
       cardAt (fold (\<lambda>(r, c) b. mapCell r c h b) (map (\<lambda>i. (i, c0)) [0..<n]) nb) r c =
         (if (r, c) \<in> set (map (\<lambda>i. (i, c0)) [0..<n]) then map_option h (cardAt nb r c) else cardAt nb r c)"
    by blast+
  show ?thesis unfolding e cellsAre_def
  proof (intro conjI allI impI)
    show "sameView n nb (fold (\<lambda>(r, c) b. mapCell r c h b) (map (\<lambda>i. (i, c0)) [0..<n]) nb)" by (rule sv)
  next
    fix r c assume rc: "r < n" "c < n"
    show "cardAt (fold (\<lambda>(r, c) b. mapCell r c h b) (map (\<lambda>i. (i, c0)) [0..<n]) nb) r c =
          map_option (\<lambda>k. if c = c0 then h k else k) (cardAt nb r c)"
      unfolding cells[OF rc] mem[OF rc(1)] by (cases "c = c0") (simp_all add: option.map_ident)
  qed
qed

lemma cellsAre_trans:
  assumes "cellsAre n nb0 F nb1" "cellsAre n nb1 G nb2"
  shows "cellsAre n nb0 (\<lambda>r c k. G r c (F r c k)) nb2"
  using assms unfolding cellsAre_def
  by (auto simp: option.map_comp o_def intro: sameView_trans)

lemma cellsAre_cong:
  assumes "cellsAre n nb0 F nb" "\<And>r c k. r < n \<Longrightarrow> c < n \<Longrightarrow> F r c k = G r c k"
  shows "cellsAre n nb0 G nb"
  using assms unfolding cellsAre_def by (auto cong: option.map_cong)

lemma cellsAre_refl: "squareBoard n nb \<Longrightarrow> cellsAre n nb (\<lambda>r c k. k) nb"
  by (simp add: cellsAre_def sameView_refl option.map_ident)

lemma cellsAre_square: "cellsAre n nb0 F nb \<Longrightarrow> squareBoard n nb"
  by (simp add: cellsAre_def sameView_def)

subsection \<open>The hero passes, cell by cell\<close>

lemma supportTarget_mapCell: "supportTarget owner r c nb = mapCell r c (supC owner) nb"
  by (auto simp: supportTarget_def mapCell_def supC_def setCardAt_same split: option.splits)

lemma bonusTarget_mapCell: "bonusTarget owner r c nb = mapCell r c (bonC owner) nb"
  by (auto simp: bonusTarget_def mapCell_def bonC_def setCardAt_same split: option.splits)

lemma supportTarget_eq: "supportTarget owner = (\<lambda>r c. mapCell r c (supC owner))"
  by (intro ext) (rule supportTarget_mapCell)

lemma bonusTarget_eq: "bonusTarget owner = (\<lambda>r c. mapCell r c (bonC owner))"
  by (intro ext) (rule bonusTarget_mapCell)

lemma cview_supC: "cview (supC owner k) = cview k"
  by (simp add: supC_def cview_pushStatus)

lemma cview_bonC: "cview (bonC owner k) = cview k"
  by (simp add: bonC_def cview_addBonus)

lemma pushStatus_fields [simp]:
  "ownerId (pushStatus t p k) = ownerId k"
  "isFaceDown (pushStatus t p k) = isFaceDown k"
  "baseId (pushStatus t p k) = baseId k"
  "bonusPower (pushStatus t p k) = bonusPower k"
  by (simp_all add: pushStatus_def Let_def)

lemma pushStatus_idem: "pushStatus t p (pushStatus t p k) = pushStatus t p k"
  by (auto simp: pushStatus_def Let_def list_ex_iff split: option.splits)

lemma addBonus_fields [simp]:
  "ownerId (addBonus k) = ownerId k"
  "isFaceDown (addBonus k) = isFaceDown k"
  "baseId (addBonus k) = baseId k"
  "statuses (addBonus k) = statuses k"
  by (simp_all add: addBonus_def)

lemma funpow_addBonus_fields [simp]:
  "ownerId ((addBonus ^^ m) k) = ownerId k"
  "isFaceDown ((addBonus ^^ m) k) = isFaceDown k"
  "baseId ((addBonus ^^ m) k) = baseId k"
  "statuses ((addBonus ^^ m) k) = statuses k"
  by (induction m) simp_all

lemma sup_rev_row: "supC owner (revC RS CS r c k) = revC (insert (r, owner) RS) CS r c k"
  by (cases "ownerId k") (auto simp: supC_def revC_def pushStatus_idem)

lemma sup_rev_col: "supC owner (revC RS CS r c k) = revC RS (insert (c, owner) CS) r c k"
  by (cases "ownerId k") (auto simp: supC_def revC_def pushStatus_idem)

lemma rev_row_other: "r \<noteq> r0 \<Longrightarrow> revC (insert (r0, owner) RS) CS r c k = revC RS CS r c k"
  by (simp add: revC_def split: option.splits)

lemma rev_col_other: "c \<noteq> c0 \<Longrightarrow> revC RS (insert (c0, owner) CS) r c k = revC RS CS r c k"
  by (simp add: revC_def split: option.splits)

lemma bon_bonus_row:
  "(r, owner) \<notin> RS \<Longrightarrow> bonC owner (bonusC RS CS r c k) = bonusC (insert (r, owner) RS) CS r c k"
  by (cases "ownerId k") (auto simp: bonC_def bonusC_def lineHits_def)

lemma bon_bonus_col:
  "(c, owner) \<notin> CS \<Longrightarrow> bonC owner (bonusC RS CS r c k) = bonusC RS (insert (c, owner) CS) r c k"
  by (cases "ownerId k") (auto simp: bonC_def bonusC_def lineHits_def)

lemma bonus_row_other: "r \<noteq> r0 \<Longrightarrow> bonusC (insert (r0, owner) RS) CS r c k = bonusC RS CS r c k"
  by (simp add: bonusC_def lineHits_def split: option.splits)

lemma bonus_col_other: "c \<noteq> c0 \<Longrightarrow> bonusC RS (insert (c0, owner) CS) r c k = bonusC RS CS r c k"
  by (simp add: bonusC_def lineHits_def split: option.splits)

lemma rev_row_phase:
  assumes inv: "cellsAre n nb0 (revC RS CS) nb" and r0: "r0 < n"
  shows "cellsAre n nb0 (revC (insert (r0, owner) RS) CS)
           (if (r0, owner) \<notin> RS then fold (\<lambda>i b. supportTarget owner r0 i b) [0..<length nb] nb else nb)"
proof (cases "(r0, owner) \<in> RS")
  case True
  then show ?thesis using inv by (simp add: insert_absorb)
next
  case False
  have sq: "squareBoard n nb" using inv by (rule cellsAre_square)
  then have l: "length nb = n" by (simp add: squareBoard_def)
  have "cellsAre n nb (\<lambda>r c k. if r = r0 then supC owner k else k)
          (fold (\<lambda>i b. mapCell r0 i (supC owner) b) [0..<n] nb)"
    using sq r0 cview_supC by (rule rowFold)
  from cellsAre_trans[OF inv this]
  have "cellsAre n nb0 (revC (insert (r0, owner) RS) CS) (fold (\<lambda>i b. mapCell r0 i (supC owner) b) [0..<n] nb)"
    by (rule cellsAre_cong) (simp add: sup_rev_row rev_row_other)
  with False show ?thesis by (simp add: l supportTarget_eq)
qed

lemma rev_col_phase:
  assumes inv: "cellsAre n nb0 (revC RS CS) nb" and c0: "c0 < n"
  shows "cellsAre n nb0 (revC RS (insert (c0, owner) CS))
           (if (c0, owner) \<notin> CS then fold (\<lambda>i b. supportTarget owner i c0 b) [0..<length nb] nb else nb)"
proof (cases "(c0, owner) \<in> CS")
  case True
  then show ?thesis using inv by (simp add: insert_absorb)
next
  case False
  have sq: "squareBoard n nb" using inv by (rule cellsAre_square)
  then have l: "length nb = n" by (simp add: squareBoard_def)
  have "cellsAre n nb (\<lambda>r c k. if c = c0 then supC owner k else k)
          (fold (\<lambda>i b. mapCell i c0 (supC owner) b) [0..<n] nb)"
    using sq c0 cview_supC by (rule colFold)
  from cellsAre_trans[OF inv this]
  have "cellsAre n nb0 (revC RS (insert (c0, owner) CS)) (fold (\<lambda>i b. mapCell i c0 (supC owner) b) [0..<n] nb)"
    by (rule cellsAre_cong) (simp add: sup_rev_col rev_col_other)
  with False show ?thesis by (simp add: l supportTarget_eq)
qed

lemma reverendStep_inv:
  assumes inv: "cellsAre n nb0 (revC RS CS) nb" and rng: "heroR h < n" "heroC h < n"
  shows "\<exists>nb'. reverendStep h (nb, RS, CS) =
                 (nb', insert (heroR h, heroOwnerId h) RS, insert (heroC h, heroOwnerId h) CS) \<and>
               cellsAre n nb0 (revC (insert (heroR h, heroOwnerId h) RS)
                                    (insert (heroC h, heroOwnerId h) CS)) nb'"
proof -
  define nb1 where "nb1 = (if (heroR h, heroOwnerId h) \<notin> RS
      then fold (\<lambda>i b. supportTarget (heroOwnerId h) (heroR h) i b) [0..<length nb] nb else nb)"
  define nb2 where "nb2 = (if (heroC h, heroOwnerId h) \<notin> CS
      then fold (\<lambda>i b. supportTarget (heroOwnerId h) i (heroC h) b) [0..<length nb1] nb1 else nb1)"
  have i1: "cellsAre n nb0 (revC (insert (heroR h, heroOwnerId h) RS) CS) nb1"
    unfolding nb1_def using inv rng(1) by (rule rev_row_phase)
  have i2: "cellsAre n nb0 (revC (insert (heroR h, heroOwnerId h) RS) (insert (heroC h, heroOwnerId h) CS)) nb2"
    unfolding nb2_def using i1 rng(2) by (rule rev_col_phase)
  have "reverendStep h (nb, RS, CS) =
          (nb2, insert (heroR h, heroOwnerId h) RS, insert (heroC h, heroOwnerId h) CS)"
    by (auto simp: reverendStep_def Let_def nb1_def nb2_def insert_absorb)
  with i2 show ?thesis by blast
qed

lemma reverendFold:
  "cellsAre n nb0 (revC RS CS) nb \<Longrightarrow> \<forall>h\<in>set hs. heroR h < n \<and> heroC h < n \<Longrightarrow>
   \<exists>nb'. fold reverendStep hs (nb, RS, CS) = (nb', RS \<union> rowKeys hs, CS \<union> colKeys hs) \<and>
         cellsAre n nb0 (revC (RS \<union> rowKeys hs) (CS \<union> colKeys hs)) nb'"
proof (induction hs arbitrary: nb RS CS)
  case Nil
  then show ?case by (simp add: rowKeys_def colKeys_def)
next
  case (Cons h hs)
  from Cons.prems have rng: "heroR h < n" "heroC h < n" and rest: "\<forall>h\<in>set hs. heroR h < n \<and> heroC h < n"
    by auto
  from reverendStep_inv[OF Cons.prems(1) rng] obtain nb1 where
    s: "reverendStep h (nb, RS, CS) =
          (nb1, insert (heroR h, heroOwnerId h) RS, insert (heroC h, heroOwnerId h) CS)"
    and i: "cellsAre n nb0 (revC (insert (heroR h, heroOwnerId h) RS)
                                (insert (heroC h, heroOwnerId h) CS)) nb1" by blast
  have u: "RS \<union> rowKeys (h # hs) = insert (heroR h, heroOwnerId h) RS \<union> rowKeys hs"
          "CS \<union> colKeys (h # hs) = insert (heroC h, heroOwnerId h) CS \<union> colKeys hs"
    by (auto simp: rowKeys_def colKeys_def)
  from Cons.IH[OF i rest] show ?case unfolding u by (simp add: s)
qed

lemma reverendPass_cells:
  assumes "squareBoard n nb" "\<forall>h\<in>set hs. heroR h < n \<and> heroC h < n"
  shows "cellsAre n nb (revC (rowKeys hs) (colKeys hs)) (reverendPass hs nb)"
proof -
  have "cellsAre n nb (revC {} {}) nb"
    using cellsAre_refl[OF assms(1)] by (rule cellsAre_cong) (simp add: revC_def split: option.splits)
  from reverendFold[OF this assms(2)] show ?thesis by (auto simp: reverendPass_def)
qed

lemma pearl_row_phase:
  assumes inv: "cellsAre n nb0 (bonusC RS CS) nb" and r0: "r0 < n"
  shows "cellsAre n nb0 (bonusC (insert (r0, owner) RS) CS)
           (if (r0, owner) \<notin> RS then fold (\<lambda>i b. bonusTarget owner r0 i b) [0..<length nb] nb else nb)"
proof (cases "(r0, owner) \<in> RS")
  case True
  then show ?thesis using inv by (simp add: insert_absorb)
next
  case False
  have sq: "squareBoard n nb" using inv by (rule cellsAre_square)
  then have l: "length nb = n" by (simp add: squareBoard_def)
  have "cellsAre n nb (\<lambda>r c k. if r = r0 then bonC owner k else k)
          (fold (\<lambda>i b. mapCell r0 i (bonC owner) b) [0..<n] nb)"
    using sq r0 cview_bonC by (rule rowFold)
  from cellsAre_trans[OF inv this]
  have "cellsAre n nb0 (bonusC (insert (r0, owner) RS) CS) (fold (\<lambda>i b. mapCell r0 i (bonC owner) b) [0..<n] nb)"
    by (rule cellsAre_cong) (simp add: bon_bonus_row[OF False] bonus_row_other)
  with False show ?thesis by (simp add: l bonusTarget_eq)
qed

lemma pearl_col_phase:
  assumes inv: "cellsAre n nb0 (bonusC RS CS) nb" and c0: "c0 < n"
  shows "cellsAre n nb0 (bonusC RS (insert (c0, owner) CS))
           (if (c0, owner) \<notin> CS then fold (\<lambda>i b. bonusTarget owner i c0 b) [0..<length nb] nb else nb)"
proof (cases "(c0, owner) \<in> CS")
  case True
  then show ?thesis using inv by (simp add: insert_absorb)
next
  case False
  have sq: "squareBoard n nb" using inv by (rule cellsAre_square)
  then have l: "length nb = n" by (simp add: squareBoard_def)
  have "cellsAre n nb (\<lambda>r c k. if c = c0 then bonC owner k else k)
          (fold (\<lambda>i b. mapCell i c0 (bonC owner) b) [0..<n] nb)"
    using sq c0 cview_bonC by (rule colFold)
  from cellsAre_trans[OF inv this]
  have "cellsAre n nb0 (bonusC RS (insert (c0, owner) CS)) (fold (\<lambda>i b. mapCell i c0 (bonC owner) b) [0..<n] nb)"
    by (rule cellsAre_cong) (simp add: bon_bonus_col[OF False] bonus_col_other)
  with False show ?thesis by (simp add: l bonusTarget_eq)
qed

lemma pearlStep_inv:
  assumes inv: "cellsAre n nb0 (bonusC RS CS) nb" and rng: "heroR h < n" "heroC h < n"
  shows "\<exists>nb'. pearlStep h (nb, RS, CS) =
                 (nb', insert (heroR h, heroOwnerId h) RS, insert (heroC h, heroOwnerId h) CS) \<and>
               cellsAre n nb0 (bonusC (insert (heroR h, heroOwnerId h) RS)
                                      (insert (heroC h, heroOwnerId h) CS)) nb'"
proof -
  define nb1 where "nb1 = (if (heroR h, heroOwnerId h) \<notin> RS
      then fold (\<lambda>i b. bonusTarget (heroOwnerId h) (heroR h) i b) [0..<length nb] nb else nb)"
  define nb2 where "nb2 = (if (heroC h, heroOwnerId h) \<notin> CS
      then fold (\<lambda>i b. bonusTarget (heroOwnerId h) i (heroC h) b) [0..<length nb1] nb1 else nb1)"
  have i1: "cellsAre n nb0 (bonusC (insert (heroR h, heroOwnerId h) RS) CS) nb1"
    unfolding nb1_def using inv rng(1) by (rule pearl_row_phase)
  have i2: "cellsAre n nb0 (bonusC (insert (heroR h, heroOwnerId h) RS) (insert (heroC h, heroOwnerId h) CS)) nb2"
    unfolding nb2_def using i1 rng(2) by (rule pearl_col_phase)
  have "pearlStep h (nb, RS, CS) =
          (nb2, insert (heroR h, heroOwnerId h) RS, insert (heroC h, heroOwnerId h) CS)"
    by (auto simp: pearlStep_def Let_def nb1_def nb2_def insert_absorb)
  with i2 show ?thesis by blast
qed

lemma pearlFold:
  "cellsAre n nb0 (bonusC RS CS) nb \<Longrightarrow> \<forall>h\<in>set hs. heroR h < n \<and> heroC h < n \<Longrightarrow>
   \<exists>nb'. fold pearlStep hs (nb, RS, CS) = (nb', RS \<union> rowKeys hs, CS \<union> colKeys hs) \<and>
         cellsAre n nb0 (bonusC (RS \<union> rowKeys hs) (CS \<union> colKeys hs)) nb'"
proof (induction hs arbitrary: nb RS CS)
  case Nil
  then show ?case by (simp add: rowKeys_def colKeys_def)
next
  case (Cons h hs)
  from Cons.prems have rng: "heroR h < n" "heroC h < n" and rest: "\<forall>h\<in>set hs. heroR h < n \<and> heroC h < n"
    by auto
  from pearlStep_inv[OF Cons.prems(1) rng] obtain nb1 where
    s: "pearlStep h (nb, RS, CS) =
          (nb1, insert (heroR h, heroOwnerId h) RS, insert (heroC h, heroOwnerId h) CS)"
    and i: "cellsAre n nb0 (bonusC (insert (heroR h, heroOwnerId h) RS)
                                  (insert (heroC h, heroOwnerId h) CS)) nb1" by blast
  have u: "RS \<union> rowKeys (h # hs) = insert (heroR h, heroOwnerId h) RS \<union> rowKeys hs"
          "CS \<union> colKeys (h # hs) = insert (heroC h, heroOwnerId h) CS \<union> colKeys hs"
    by (auto simp: rowKeys_def colKeys_def)
  from Cons.IH[OF i rest] show ?case unfolding u by (simp add: s)
qed

lemma pearlPass_cells:
  assumes "squareBoard n nb" "\<forall>h\<in>set hs. heroR h < n \<and> heroC h < n"
  shows "cellsAre n nb (bonusC (rowKeys hs) (colKeys hs)) (pearlPass hs nb)"
proof -
  have "cellsAre n nb (bonusC {} {}) nb"
    using cellsAre_refl[OF assms(1)]
    by (rule cellsAre_cong) (simp add: bonusC_def lineHits_def split: option.splits)
  from pearlFold[OF this assms(2)] show ?thesis by (auto simp: pearlPass_def)
qed

subsection \<open>Collecting the heroes; the whole recomputation, cell by cell\<close>

lemma collectHero_mono:
  "set (fst acc) \<subseteq> set (fst (collectHero nb p acc)) \<and> set (snd acc) \<subseteq> set (snd (collectHero nb p acc))"
  by (auto simp: collectHero_def Let_def split: prod.splits option.splits)

lemma collectHero_new:
  "h \<in> set (fst (collectHero nb p acc)) \<union> set (snd (collectHero nb p acc)) \<Longrightarrow>
   h \<in> set (fst acc) \<union> set (snd acc) \<or> (heroR h, heroC h) = p"
  by (auto simp: collectHero_def Let_def split: prod.splits option.splits if_splits)

lemma collectHero_reverend:
  "cardAt nb r c = Some k \<Longrightarrow> baseId k = Some HERO_REVEREND_ID \<Longrightarrow> ownerId k = Some owner \<Longrightarrow>
   \<not> isFaceDown k \<Longrightarrow> \<not> isStunned k \<Longrightarrow>
   \<lparr>heroR = r, heroC = c, heroOwnerId = owner, heroBaseId = HERO_REVEREND_ID\<rparr>
     \<in> set (fst (collectHero nb (r, c) acc))"
  by (auto simp: collectHero_def Let_def HERO_REVEREND_ID_def split: prod.splits)

lemma fold_collectHero_mono:
  "set (fst acc) \<subseteq> set (fst (fold (collectHero nb) ps acc))"
proof (induction ps arbitrary: acc)
  case Nil
  then show ?case by simp
next
  case (Cons p ps)
  have "set (fst acc) \<subseteq> set (fst (collectHero nb p acc))" using collectHero_mono by blast
  also have "\<dots> \<subseteq> set (fst (fold (collectHero nb) ps (collectHero nb p acc)))" by (rule Cons.IH)
  finally show ?case by simp
qed

lemma fold_collectHero_range:
  "h \<in> set (fst (fold (collectHero nb) ps acc)) \<union> set (snd (fold (collectHero nb) ps acc)) \<Longrightarrow>
   h \<in> set (fst acc) \<union> set (snd acc) \<or> (heroR h, heroC h) \<in> set ps"
proof (induction ps arbitrary: acc)
  case Nil
  then show ?case by simp
next
  case (Cons p ps)
  from Cons.prems have "h \<in> set (fst (fold (collectHero nb) ps (collectHero nb p acc))) \<union>
                             set (snd (fold (collectHero nb) ps (collectHero nb p acc)))" by simp
  from Cons.IH[OF this] show ?case using collectHero_new[of h nb p acc] by auto
qed

lemma fold_collectHero_reverend:
  assumes "(r, c) \<in> set ps" "cardAt nb r c = Some k" "baseId k = Some HERO_REVEREND_ID"
    "ownerId k = Some owner" "\<not> isFaceDown k" "\<not> isStunned k"
  shows "\<lparr>heroR = r, heroC = c, heroOwnerId = owner, heroBaseId = HERO_REVEREND_ID\<rparr>
           \<in> set (fst (fold (collectHero nb) ps acc))"
  using assms(1)
proof (induction ps arbitrary: acc)
  case Nil
  then show ?case by simp
next
  case (Cons p ps)
  show ?case
  proof (cases "p = (r, c)")
    case True
    have "\<lparr>heroR = r, heroC = c, heroOwnerId = owner, heroBaseId = HERO_REVEREND_ID\<rparr>
            \<in> set (fst (collectHero nb p acc))"
      unfolding True using assms(2-6) by (rule collectHero_reverend)
    then show ?thesis using fold_collectHero_mono[of "collectHero nb p acc" nb ps] by auto
  next
    case False
    with Cons.prems have "(r, c) \<in> set ps" by simp
    from Cons.IH[OF this] show ?thesis by simp
  qed
qed

lemma collectHeroes_range:
  assumes "length nb = n"
    and "h \<in> set (fst (collectHeroes nb)) \<union> set (snd (collectHeroes nb))"
  shows "heroR h < n \<and> heroC h < n"
  using fold_collectHero_range[of h nb "List.product [0..<n] [0..<n]" "([], [])"] assms
  by (auto simp: collectHeroes_def)

lemma collectHeroes_reverend:
  assumes "squareBoard n nb" "r < n" "c < n" "cardAt nb r c = Some k"
    "baseId k = Some HERO_REVEREND_ID" "ownerId k = Some owner" "\<not> isFaceDown k" "\<not> isStunned k"
  shows "\<lparr>heroR = r, heroC = c, heroOwnerId = owner, heroBaseId = HERO_REVEREND_ID\<rparr>
           \<in> set (fst (collectHeroes nb))"
proof -
  have l: "length nb = n" using assms(1) by (simp add: squareBoard_def)
  have "(r, c) \<in> set (List.product [0..<n] [0..<n])" using assms(2,3) by simp
  from fold_collectHero_reverend[OF this assms(4-8)] show ?thesis by (simp add: collectHeroes_def l)
qed

lemma collectHero_view:
  assumes sv: "sameView n nb nb'" and rng: "r < n" "c < n"
  shows "collectHero nb (r, c) acc = collectHero nb' (r, c) acc"
proof -
  from sameView_cell[OF sv rng]
  have n: "cardAt nb r c = None \<longleftrightarrow> cardAt nb' r c = None"
    and s: "\<And>k k'. cardAt nb r c = Some k \<Longrightarrow> cardAt nb' r c = Some k' \<Longrightarrow> cview k = cview k'" by auto
  show ?thesis
  proof (cases "cardAt nb r c")
    case None
    with n have "cardAt nb' r c = None" by simp
    with None show ?thesis by (simp add: collectHero_def Let_def split: prod.splits)
  next
    case (Some k)
    with n obtain k' where k': "cardAt nb' r c = Some k'" by (cases "cardAt nb' r c") auto
    from s[OF Some k'] have "ownerId k = ownerId k'" "isFaceDown k = isFaceDown k'"
      "isStunned k = isStunned k'" "baseId k = baseId k'"
      by (simp_all add: cview_def)
    with Some k' show ?thesis
      by (cases "baseId k'"; cases "ownerId k'") (auto simp: collectHero_def Let_def split: prod.splits)
  qed
qed

lemma collectHeroes_view:
  assumes sv: "sameView n nb nb'"
  shows "collectHeroes nb = collectHeroes nb'"
proof -
  from sv have l: "length nb = n" "length nb' = n" by (simp_all add: sameView_def squareBoard_def)
  show ?thesis unfolding collectHeroes_def l
    by (rule fold_cong) (auto simp: collectHero_view[OF sv])
qed

lemma recalc_cells:
  assumes sq: "squareBoard n (board gs)"
  shows "cellsAre n (board gs) (finalCard gs) (recalculateBoardStatuses gs)"
proof -
  define b1 where "b1 = resetPass (board gs)"
  define b2 where "b2 = adjacencyPass gs b1"
  define revs where "revs = fst (collectHeroes b2)"
  define pearls where "pearls = snd (collectHeroes b2)"
  define b3 where "b3 = reverendPass revs b2"
  have c1: "cellsAre n (board gs) (\<lambda>r c. resetCard) b1"
    unfolding b1_def cellsAre_def using resetPass_cells[OF sq] by simp
  then have sq1: "squareBoard n b1" by (rule cellsAre_square)
  have c2: "cellsAre n b1 (adjC (playerTeamMap (players gs)) (gridOffset b1 (activeGridSize gs))
                 (activeGridSize gs) b1) b2"
    unfolding b2_def cellsAre_def using adjacencyPass_cells[OF sq1] by simp
  then have sq2: "squareBoard n b2" by (rule cellsAre_square)
  then have l2: "length b2 = n" by (simp add: squareBoard_def)
  have rr: "\<forall>h\<in>set revs. heroR h < n \<and> heroC h < n"
    using collectHeroes_range[OF l2] by (auto simp: revs_def)
  have pr: "\<forall>h\<in>set pearls. heroR h < n \<and> heroC h < n"
    using collectHeroes_range[OF l2] by (auto simp: pearls_def)
  have c3: "cellsAre n b2 (revC (rowKeys revs) (colKeys revs)) b3"
    unfolding b3_def using sq2 rr by (rule reverendPass_cells)
  then have sq3: "squareBoard n b3" by (rule cellsAre_square)
  have c4: "cellsAre n b3 (bonusC (rowKeys pearls) (colKeys pearls)) (pearlPass pearls b3)"
    using sq3 pr by (rule pearlPass_cells)
  have e: "recalculateBoardStatuses gs = pearlPass pearls b3"
    by (simp add: recalculateBoardStatuses_def heroPass_def b3_def b2_def b1_def revs_def pearls_def
                  split: prod.splits)
  from cellsAre_trans[OF cellsAre_trans[OF cellsAre_trans[OF c1 c2] c3] c4]
  show ?thesis unfolding e
    by (rule cellsAre_cong)
       (simp add: finalCard_def Let_def b1_def b2_def revs_def pearls_def split: prod.splits)
qed

subsection \<open>Recomputing a recomputed card\<close>

lemma resetCard_idem: "resetCard (resetCard k) = resetCard k"
  by (cases "statuses k") (simp_all add: resetCard_def)

lemma resetCard_fields [simp]:
  "ownerId (resetCard k) = ownerId k"
  "isFaceDown (resetCard k) = isFaceDown k"
  "baseId (resetCard k) = baseId k"
  by (simp_all add: resetCard_def)

lemma resetCard_funpow_addBonus: "resetCard ((addBonus ^^ m) x) = resetCard x"
proof (induction m)
  case 0
  then show ?case by simp
next
  case (Suc m)
  have "resetCard (addBonus y) = resetCard y" for y
    by (simp add: resetCard_def addBonus_def)
  with Suc show ?case by simp
qed

lemma resetCard_pushStatus:
  "t = ''Support'' \<or> t = ''Threat'' \<Longrightarrow> resetCard (pushStatus t p x) = touch (resetCard x)"
  by (cases "statuses x") (auto simp: resetCard_def pushStatus_def touch_def Let_def)

lemma resetCard_touch: "resetCard (touch x) = touch (resetCard x)"
  by (cases "statuses x") (simp_all add: resetCard_def touch_def)

lemma touch_touch: "touch (touch x) = touch x"
  by (simp add: touch_def)

lemma pushStatus_touch: "pushStatus t p (touch x) = pushStatus t p x"
  by (cases "statuses x") (simp_all add: pushStatus_def touch_def Let_def)

lemma derive_idem:
  fixes hf hr :: bool and t :: "nat option" and m :: nat and owner :: nat
  defines "D \<equiv> (\<lambda>x. (addBonus ^^ m)
                    ((if hr then pushStatus ''Support'' owner else id)
                       ((case t of None \<Rightarrow> id | Some p \<Rightarrow> pushStatus ''Threat'' p)
                          ((if hf then pushStatus ''Support'' owner else id) x))))"
  shows "D (resetCard (D (resetCard k))) = D (resetCard k)"
  unfolding D_def
  by (cases hf; cases hr; cases t)
     (simp_all add: resetCard_funpow_addBonus resetCard_pushStatus resetCard_touch touch_touch
                    pushStatus_touch resetCard_idem)

lemma adjacencyCard_alt:
  "adjacencyCard tm off ags nb r c owner x =
     (case threatOf off ags r c (fst (scanNeighbors tm nb r c owner)) of
        None \<Rightarrow> id
      | Some p \<Rightarrow> pushStatus ''Threat'' p)
       ((if snd (scanNeighbors tm nb r c owner) then pushStatus ''Support'' owner else id) x)"
  unfolding adjacencyCard_def threatOf_def Let_def case_prod_beta
  by (simp split: option.splits)

lemma derive_fields:
  "ownerId ((addBonus ^^ m)
      ((if hr then pushStatus ''Support'' owner else id)
         ((case t of None \<Rightarrow> id | Some p \<Rightarrow> pushStatus ''Threat'' p)
            ((if hf then pushStatus ''Support'' owner else id) x)))) = ownerId x"
  "isFaceDown ((addBonus ^^ m)
      ((if hr then pushStatus ''Support'' owner else id)
         ((case t of None \<Rightarrow> id | Some p \<Rightarrow> pushStatus ''Threat'' p)
            ((if hf then pushStatus ''Support'' owner else id) x)))) = isFaceDown x"
  "baseId ((addBonus ^^ m)
      ((if hr then pushStatus ''Support'' owner else id)
         ((case t of None \<Rightarrow> id | Some p \<Rightarrow> pushStatus ''Threat'' p)
            ((if hf then pushStatus ''Support'' owner else id) x)))) = baseId x"
  by (cases t; simp)+

lemma finalCard_idem: "finalCard gs r c (finalCard gs r c k) = finalCard gs r c k"
proof -
  define b1 where "b1 = resetPass (board gs)"
  define revs where "revs = fst (collectHeroes (adjacencyPass gs b1))"
  define pearls where "pearls = snd (collectHeroes (adjacencyPass gs b1))"
  define tm where "tm = playerTeamMap (players gs)"
  define off where "off = gridOffset b1 (activeGridSize gs)"
  define F where "F = (\<lambda>k. bonusC (rowKeys pearls) (colKeys pearls) r c
           (revC (rowKeys revs) (colKeys revs) r c
              (adjC tm off (activeGridSize gs) b1 r c (resetCard k))))"
  have fc: "finalCard gs r c = F"
    unfolding finalCard_def F_def Let_def b1_def revs_def pearls_def tm_def off_def case_prod_beta
    by (rule refl)
  have "F (F k) = F k"
  proof (cases "ownerId k")
    case None
    have "F x = resetCard x" if "ownerId x = None" for x
      using that by (simp add: F_def bonusC_def revC_def adjC_def)
    then show ?thesis using None by (simp add: resetCard_idem)
  next
    case (Some owner)
    show ?thesis
    proof (cases "isFaceDown k")
      case True
      have "F x = resetCard x" if "ownerId x = Some owner" "isFaceDown x" for x
        using that by (simp add: F_def bonusC_def revC_def adjC_def)
      then show ?thesis using Some True by (simp add: resetCard_idem)
    next
      case False
      define hf where "hf = snd (scanNeighbors tm b1 r c owner)"
      define t where "t = threatOf off (activeGridSize gs) r c (fst (scanNeighbors tm b1 r c owner))"
      define hr where "hr = ((r, owner) \<in> rowKeys revs \<or> (c, owner) \<in> colKeys revs)"
      define m where "m = (if baseId k \<noteq> Some HERO_MR_PEARL_ID
                           then lineHits (rowKeys pearls) (colKeys pearls) r c owner else 0)"
      define D where "D = (\<lambda>x. (addBonus ^^ m)
                    ((if hr then pushStatus ''Support'' owner else id)
                       ((case t of None \<Rightarrow> id | Some p \<Rightarrow> pushStatus ''Threat'' p)
                          ((if hf then pushStatus ''Support'' owner else id) x))))"
      have FD: "F x = D (resetCard x)"
        if x: "ownerId x = Some owner" "\<not> isFaceDown x" "baseId x = baseId k" for x
      proof -
        define y where "y = resetCard x"
        have y: "ownerId y = Some owner" "\<not> isFaceDown y" "baseId y = baseId k"
          using x by (simp_all add: y_def)
        define a where "a = (case t of None \<Rightarrow> id | Some p \<Rightarrow> pushStatus ''Threat'' p)
                          ((if hf then pushStatus ''Support'' owner else id) y)"
        have a: "ownerId a = Some owner" "\<not> isFaceDown a" "baseId a = baseId k"
          using y unfolding a_def by (cases t; simp)+
        have 1: "adjC tm off (activeGridSize gs) b1 r c y = a"
          using y by (simp add: adjC_def adjacencyCard_alt a_def t_def hf_def)
        define rr where "rr = (if hr then pushStatus ''Support'' owner else id) a"
        have rr: "ownerId rr = Some owner" "\<not> isFaceDown rr" "baseId rr = baseId k"
          using a unfolding rr_def by simp_all
        have 2: "revC (rowKeys revs) (colKeys revs) r c a = rr"
          using a by (simp add: revC_def rr_def hr_def)
        have 3: "bonusC (rowKeys pearls) (colKeys pearls) r c rr = (addBonus ^^ m) rr"
          using rr by (simp add: bonusC_def m_def)
        show ?thesis unfolding F_def D_def y_def[symmetric] 1 2 3 by (simp add: rr_def a_def)
      qed
      have fk: "ownerId (F k) = Some owner" "\<not> isFaceDown (F k)" "baseId (F k) = baseId k"
        unfolding FD[OF Some False refl] D_def derive_fields using Some False by simp_all
      have "F (F k) = D (resetCard (F k))" by (rule FD[OF fk])
      also have "\<dots> = D (resetCard (D (resetCard k)))"
        by (simp only: FD[OF Some False refl])
      also have "\<dots> = D (resetCard k)" unfolding D_def by (rule derive_idem)
      also have "\<dots> = F k" unfolding FD[OF Some False refl] by (rule refl)
      finally show ?thesis .
    qed
  qed
  then show ?thesis unfolding fc .
qed

subsection \<open>Idempotence\<close>

lemma finalCard_view:
  assumes sq: "squareBoard n (board gs)"
    and gs': "gs' = gs\<lparr>board := recalculateBoardStatuses gs\<rparr>"
  shows "finalCard gs' = finalCard gs"
proof -
  have bg: "board gs' = recalculateBoardStatuses gs" by (simp add: gs')
  have p: "players gs' = players gs" "activeGridSize gs' = activeGridSize gs"
    by (simp_all add: gs')
  have v: "sameView n (board gs) (board gs')"
    using recalc_cells[OF sq] unfolding bg by (simp add: cellsAre_def)
  then have sq': "squareBoard n (board gs')" by (simp add: sameView_def)
  have r: "sameView n (board gs) (resetPass (board gs))" using resetPass_cells[OF sq] by blast
  have r': "sameView n (board gs') (resetPass (board gs'))" using resetPass_cells[OF sq'] by blast
  have v1: "sameView n (resetPass (board gs)) (resetPass (board gs'))"
    using r r' v by (blast intro: sameView_trans sameView_sym)
  then have sq1: "squareBoard n (resetPass (board gs))" "squareBoard n (resetPass (board gs'))"
    by (simp_all add: sameView_def)
  have a: "sameView n (resetPass (board gs)) (adjacencyPass gs (resetPass (board gs)))"
    using adjacencyPass_cells[OF sq1(1)] by blast
  have a': "sameView n (resetPass (board gs')) (adjacencyPass gs' (resetPass (board gs')))"
    using adjacencyPass_cells[OF sq1(2)] by blast
  have v2: "sameView n (adjacencyPass gs' (resetPass (board gs'))) (adjacencyPass gs (resetPass (board gs)))"
    using a a' v1 by (blast intro: sameView_trans sameView_sym)
  have h: "collectHeroes (adjacencyPass gs' (resetPass (board gs'))) =
           collectHeroes (adjacencyPass gs (resetPass (board gs)))"
    using v2 by (rule collectHeroes_view)
  have l: "length (resetPass (board gs')) = length (resetPass (board gs))"
    using sq1 by (simp add: squareBoard_def)
  have g: "gridOffset (resetPass (board gs')) ags = gridOffset (resetPass (board gs)) ags" for ags
    unfolding gridOffset_def l by (rule refl)
  have ad: "adjC tm off ags (resetPass (board gs')) r c = adjC tm off ags (resetPass (board gs)) r c"
    for tm off ags r c
    using sameView_sym[OF v1] by (rule adjC_view)
  show ?thesis
    unfolding finalCard_def Let_def case_prod_beta h p g ad by (rule refl)
qed

lemma recalc_idempotent_aux:
  assumes sq: "squareBoard n (board gs)"
  shows "recalculateBoardStatuses (gs\<lparr>board := recalculateBoardStatuses gs\<rparr>) = recalculateBoardStatuses gs"
proof -
  define gs' where "gs' = gs\<lparr>board := recalculateBoardStatuses gs\<rparr>"
  have bg: "board gs' = recalculateBoardStatuses gs" by (simp add: gs'_def)
  have c: "cellsAre n (board gs) (finalCard gs) (recalculateBoardStatuses gs)"
    using sq by (rule recalc_cells)
  then have sq': "squareBoard n (board gs')" unfolding bg by (rule cellsAre_square)
  have c': "cellsAre n (board gs') (finalCard gs') (recalculateBoardStatuses gs')"
    using sq' by (rule recalc_cells)
  have f: "finalCard gs' = finalCard gs" using sq gs'_def by (rule finalCard_view)
  have "recalculateBoardStatuses gs' = recalculateBoardStatuses gs"
  proof (rule board_eqI[of n])
    show "squareBoard n (recalculateBoardStatuses gs')" using c' by (rule cellsAre_square)
    show "squareBoard n (recalculateBoardStatuses gs)" using c by (rule cellsAre_square)
  next
    fix r c assume rc: "r < n" "c < n"
    have "cardAt (recalculateBoardStatuses gs') r c =
          map_option (finalCard gs' r c) (cardAt (board gs') r c)"
      using c' rc unfolding cellsAre_def by blast
    also have "\<dots> = map_option (finalCard gs r c) (cardAt (recalculateBoardStatuses gs) r c)"
      unfolding f bg by (rule refl)
    also have "cardAt (recalculateBoardStatuses gs) r c = map_option (finalCard gs r c) (cardAt (board gs) r c)"
      using c rc unfolding cellsAre_def by blast
    also have "map_option (finalCard gs r c) (map_option (finalCard gs r c) (cardAt (board gs) r c))
        = map_option (finalCard gs r c) (cardAt (board gs) r c)"
      by (cases "cardAt (board gs) r c") (simp_all add: finalCard_idem)
    also have "\<dots> = cardAt (recalculateBoardStatuses gs) r c"
      using c rc unfolding cellsAre_def by (simp only:)
    finally show "cardAt (recalculateBoardStatuses gs') r c = cardAt (recalculateBoardStatuses gs) r c" .
  qed
  then show ?thesis unfolding gs'_def .
qed

text \<open>
  Claim C7. On a square board, recomputing the statuses, putting the result in place of
  the board and recomputing again gives the board of the first recomputation.
\<close>

theorem recalc_idempotent:
  "squareBoard n (board gs) \<Longrightarrow>
     recalculateBoardStatuses (gs\<lparr>board := recalculateBoardStatuses gs\<rparr>) =
     recalculateBoardStatuses gs"
  by (rule recalc_idempotent_aux)

theorem recalc_idempotent_witness:
  "squareBoard 7 (board skirmish) \<and>
   recalculateBoardStatuses (skirmish\<lparr>board := recalculateBoardStatuses skirmish\<rparr>) =
   recalculateBoardStatuses skirmish"
proof -
  have h: "squareBoard 7 (board skirmish)" by code_simp
  from recalc_idempotent[OF h] h show ?thesis by blast
qed

subsection \<open>Statuses of the recomputed card\<close>

lemma statusesOfType_resetCard:
  "t = ''Support'' \<or> t = ''Threat'' \<Longrightarrow> statusesOfType t (resetCard k) = []"
  by (cases "statuses k") (auto simp: statusesOfType_def statusList_def resetCard_def filter_empty_conv)

lemma statusesOfType_pushStatus_same:
  "statusesOfType t (pushStatus t p x) =
     (if statusesOfType t x = [] then [\<lparr>type_s = t, addedByPlayerId = p\<rparr>] else statusesOfType t x)"
  by (cases "statuses x")
     (auto simp: statusesOfType_def statusList_def pushStatus_def Let_def list_ex_iff filter_empty_conv)

lemma statusesOfType_pushStatus_other:
  "t \<noteq> t' \<Longrightarrow> statusesOfType t (pushStatus t' p x) = statusesOfType t x"
  by (cases "statuses x")
     (auto simp: statusesOfType_def statusList_def pushStatus_def Let_def)

lemma statusesOfType_funpow_addBonus: "statusesOfType t ((addBonus ^^ m) x) = statusesOfType t x"
  by (simp add: statusesOfType_def statusList_def)

lemma finalCard_owned:
  assumes sq: "squareBoard n (board gs)" and k: "ownerId k = Some owner" "\<not> isFaceDown k"
  shows "finalCard gs r c k =
    (addBonus ^^ (if baseId k \<noteq> Some HERO_MR_PEARL_ID
                  then lineHits (rowKeys (snd (collectHeroes (board gs))))
                                (colKeys (snd (collectHeroes (board gs)))) r c owner
                  else 0))
      ((if (r, owner) \<in> rowKeys (fst (collectHeroes (board gs))) \<or>
           (c, owner) \<in> colKeys (fst (collectHeroes (board gs)))
        then pushStatus ''Support'' owner else id)
         ((case threatOf (gridOffset (board gs) (activeGridSize gs)) (activeGridSize gs) r c
                  (fst (scanNeighbors (playerTeamMap (players gs)) (board gs) r c owner)) of
             None \<Rightarrow> id
           | Some p \<Rightarrow> pushStatus ''Threat'' p)
            ((if snd (scanNeighbors (playerTeamMap (players gs)) (board gs) r c owner)
              then pushStatus ''Support'' owner else id)
               (resetCard k))))"
proof -
  define b1 where "b1 = resetPass (board gs)"
  have v1: "sameView n (board gs) b1" unfolding b1_def using resetPass_cells[OF sq] by blast
  then have sq1: "squareBoard n b1" by (simp add: sameView_def)
  have v2: "sameView n b1 (adjacencyPass gs b1)" using adjacencyPass_cells[OF sq1] by blast
  have h: "collectHeroes (adjacencyPass gs b1) = collectHeroes (board gs)"
    by (rule collectHeroes_view[OF sameView_sym[OF sameView_trans[OF v1 v2]]])
  have s: "scanNeighbors tm b1 r c owner = scanNeighbors tm (board gs) r c owner" for tm
    by (rule scanNeighbors_view[OF sameView_sym[OF v1]])
  have l: "length b1 = length (board gs)" using sq sq1 by (simp add: squareBoard_def)
  have g: "gridOffset b1 ags = gridOffset (board gs) ags" for ags
    unfolding gridOffset_def l by (rule refl)
  define y where "y = resetCard k"
  have y: "ownerId y = Some owner" "\<not> isFaceDown y" "baseId y = baseId k"
    using k by (simp_all add: y_def)
  define a where "a = (case threatOf (gridOffset (board gs) (activeGridSize gs)) (activeGridSize gs) r c
                  (fst (scanNeighbors (playerTeamMap (players gs)) (board gs) r c owner)) of
             None \<Rightarrow> id
           | Some p \<Rightarrow> pushStatus ''Threat'' p)
            ((if snd (scanNeighbors (playerTeamMap (players gs)) (board gs) r c owner)
              then pushStatus ''Support'' owner else id) y)"
  have a: "ownerId a = Some owner" "\<not> isFaceDown a" "baseId a = baseId k"
    using y unfolding a_def
    by (cases "threatOf (gridOffset (board gs) (activeGridSize gs)) (activeGridSize gs) r c
                  (fst (scanNeighbors (playerTeamMap (players gs)) (board gs) r c owner))"; simp)+
  have 1: "adjC (playerTeamMap (players gs)) (gridOffset b1 (activeGridSize gs)) (activeGridSize gs) b1 r c y = a"
    using y by (simp add: adjC_def adjacencyCard_alt a_def s g)
  define rr where "rr = (if (r, owner) \<in> rowKeys (fst (collectHeroes (board gs))) \<or>
           (c, owner) \<in> colKeys (fst (collectHeroes (board gs)))
        then pushStatus ''Support'' owner else id) a"
  have rr: "ownerId rr = Some owner" "\<not> isFaceDown rr" "baseId rr = baseId k"
    using a unfolding rr_def by simp_all
  have 2: "revC (rowKeys (fst (collectHeroes (board gs)))) (colKeys (fst (collectHeroes (board gs)))) r c a = rr"
    using a by (simp add: revC_def rr_def)
  have 3: "bonusC (rowKeys (snd (collectHeroes (board gs)))) (colKeys (snd (collectHeroes (board gs)))) r c rr =
      (addBonus ^^ (if baseId k \<noteq> Some HERO_MR_PEARL_ID
                  then lineHits (rowKeys (snd (collectHeroes (board gs))))
                                (colKeys (snd (collectHeroes (board gs)))) r c owner
                  else 0)) rr"
    using rr by (simp add: bonusC_def)
  show ?thesis
    unfolding finalCard_def Let_def case_prod_beta b1_def[symmetric] h y_def[symmetric] 1 2 3
    by (simp add: rr_def a_def)
qed

lemma reverend_line_support_aux:
  assumes sq: "squareBoard n (board gs)"
    and rng: "r < n" "c < n" "r' < n" "c' < n"
    and hero: "cardAt (board gs) r c = Some h" "baseId h = Some HERO_REVEREND_ID"
      "ownerId h = Some owner" "\<not> isFaceDown h" "\<not> isStunned h"
    and line: "r' = r \<or> c' = c"
    and target: "cardAt (board gs) r' c' = Some t" "ownerId t = Some owner" "\<not> isFaceDown t"
  shows "\<exists>t'. cardAt (recalculateBoardStatuses gs) r' c' = Some t' \<and>
              statusesOfType ''Support'' t' = [\<lparr>type_s = ''Support'', addedByPlayerId = owner\<rparr>]"
proof -
  have c: "cardAt (recalculateBoardStatuses gs) r' c' = Some (finalCard gs r' c' t)"
    using recalc_cells[OF sq] rng target(1) by (simp add: cellsAre_def)
  have "\<lparr>heroR = r, heroC = c, heroOwnerId = owner, heroBaseId = HERO_REVEREND_ID\<rparr>
          \<in> set (fst (collectHeroes (board gs)))"
    using sq rng(1,2) hero by (rule collectHeroes_reverend)
  then have "(r, owner) \<in> rowKeys (fst (collectHeroes (board gs)))"
            "(c, owner) \<in> colKeys (fst (collectHeroes (board gs)))"
    by (force simp: rowKeys_def colKeys_def)+
  with line have hit: "(r', owner) \<in> rowKeys (fst (collectHeroes (board gs))) \<or>
                       (c', owner) \<in> colKeys (fst (collectHeroes (board gs)))" by auto
  have "statusesOfType ''Support'' (finalCard gs r' c' t) =
          [\<lparr>type_s = ''Support'', addedByPlayerId = owner\<rparr>]"
    unfolding finalCard_owned[OF sq target(2,3)]
    using hit
    by (cases "threatOf (gridOffset (board gs) (activeGridSize gs)) (activeGridSize gs) r' c'
                  (fst (scanNeighbors (playerTeamMap (players gs)) (board gs) r' c' owner))")
       (simp_all add: statusesOfType_funpow_addBonus statusesOfType_pushStatus_same
                      statusesOfType_pushStatus_other statusesOfType_resetCard)
  with c show ?thesis by blast
qed

text \<open>
  Claim C1, as amended. On a square board, for a face-up, owned, non-stunned Reverend
  at \<open>(r, c)\<close>, every face-up card of the same owner in row \<open>r\<close> or column \<open>c\<close> carries,
  after the recomputation, exactly one Support status, attributed to that owner. The
  Reverend itself is one of these cards: the hero loop does not exclude it.
\<close>

theorem reverend_line_support:
  assumes "squareBoard n (board gs)"
    and "r < n" "c < n" "r' < n" "c' < n"
    and "cardAt (board gs) r c = Some h" "baseId h = Some HERO_REVEREND_ID"
      "ownerId h = Some owner" "\<not> isFaceDown h" "\<not> isStunned h"
    and "r' = r \<or> c' = c"
    and "cardAt (board gs) r' c' = Some t" "ownerId t = Some owner" "\<not> isFaceDown t"
  shows "(\<exists>t'. cardAt (recalculateBoardStatuses gs) r' c' = Some t' \<and>
               statusesOfType ''Support'' t' = [\<lparr>type_s = ''Support'', addedByPlayerId = owner\<rparr>]) \<and>
         (\<exists>h'. cardAt (recalculateBoardStatuses gs) r c = Some h' \<and>
               statusesOfType ''Support'' h' = [\<lparr>type_s = ''Support'', addedByPlayerId = owner\<rparr>])"
  using reverend_line_support_aux[OF assms]
        reverend_line_support_aux[OF assms(1,2,3,2,3) assms(6-10) _ assms(6,8,9)]
  by blast

theorem reverend_line_support_witness:
  "(\<exists>t'. cardAt (recalculateBoardStatuses skirmish) 4 5 = Some t' \<and>
         statusesOfType ''Support'' t' = [\<lparr>type_s = ''Support'', addedByPlayerId = 1\<rparr>]) \<and>
   (\<exists>h'. cardAt (recalculateBoardStatuses skirmish) 4 1 = Some h' \<and>
         statusesOfType ''Support'' h' = [\<lparr>type_s = ''Support'', addedByPlayerId = 1\<rparr>])"
proof -
  have sq: "squareBoard 7 (board skirmish)" by code_simp
  have hero: "cardAt (board skirmish) 4 1 = Some (unitCard ''rev'' HERO_REVEREND_ID 1)"
    by code_simp
  have target: "cardAt (board skirmish) 4 5 = Some (unitCard ''ally'' ''scout'' 1)"
    by code_simp
  have h: "baseId (unitCard ''rev'' HERO_REVEREND_ID 1) = Some HERO_REVEREND_ID"
    "ownerId (unitCard ''rev'' HERO_REVEREND_ID 1) = Some 1"
    "\<not> isFaceDown (unitCard ''rev'' HERO_REVEREND_ID 1)"
    "\<not> isStunned (unitCard ''rev'' HERO_REVEREND_ID 1)"
    by (simp_all add: unitCard_def isStunned_def hasStatus_def)
  have t: "ownerId (unitCard ''ally'' ''scout'' 1) = Some 1"
    "\<not> isFaceDown (unitCard ''ally'' ''scout'' 1)"
    by (simp_all add: unitCard_def)
  show ?thesis
    by (rule reverend_line_support[OF sq _ _ _ _ hero h _ target t]) simp_all
qed

text \<open>
  Claim C1 as stated fails in its last part. A Reverend alone on the board has no
  Support after the adjacency pass and has Support, attributed to its owner, after the
  hero pass: it is supported by its own aura.
\<close>

theorem reverend_supports_itself_counterexample:
  "map_option (statusesOfType ''Support'')
     (cardAt (adjacencyPass loneReverend (resetPass (board loneReverend))) 3 3) = Some [] \<and>
   cardAt (recalculateBoardStatuses loneReverend) 3 3 =
     Some ((unitCard ''rev'' HERO_REVEREND_ID 1)
             \<lparr>statuses := Some [\<lparr>type_s = ''Support'', addedByPlayerId = 1\<rparr>]\<rparr>)"
  by code_simp

subsection \<open>The enemy object of the neighbour scan\<close>












lemma firstKey_index:
  assumes "ks \<noteq> []" "\<forall>k\<in>set ks. isArrayIndex k"
  shows "firstKey ks = Min (set ks)"
proof -
  from assms(2) have "filter isArrayIndex ks = ks" by (simp add: filter_id_conv)
  with assms(1) show ?thesis by (simp add: firstKey_def)
qed

lemma firstKey_other:
  assumes "\<forall>k\<in>set ks. \<not> isArrayIndex k"
  shows "firstKey ks = hd ks"
proof -
  from assms have "filter isArrayIndex ks = []" by (simp add: filter_empty_conv)
  then show ?thesis by (simp add: firstKey_def)
qed

subsection \<open>Threat by border pressure\<close>


lemma firstKey_examples:
  "firstKey [3, 2] = 2" "firstKey [4294967296, 4294967295] = 4294967296"
  "firstKey [4294967296, 7, 5] = 5"
  by (simp_all add: firstKey_def isArrayIndex_def)




end
